theory Spec2Isabelle
  imports Complex_Main "HOL-Library.Word"
begin

section \<open>NumPy arrays as nested lists\<close>

text \<open>
  The notebook \<^verbatim>\<open>sparkFigure4.ipynb\<close> works on NumPy arrays.  An array of
  rank \<open>n\<close> is modelled as an \<open>n\<close>-fold nested list in C order (outermost axis first);
  the arrays of the program are rectangular, and the theorems say so where it matters.
  Indexing that raises in Python is a value of \<open>error + 'a\<close>.
\<close>

datatype error = IndexError | ValueError

definition bind_e :: "error + 'a \<Rightarrow> ('a \<Rightarrow> error + 'b) \<Rightarrow> error + 'b" where
  "bind_e m f = (case m of Inl e \<Rightarrow> Inl e | Inr v \<Rightarrow> f v)"

definition py_index :: "'a list \<Rightarrow> int \<Rightarrow> error + 'a" where
  \<comment> \<open>\<^verbatim>\<open>a[i]\<close>: an index below zero counts from the end; outside the axis it raises.\<close>
  "py_index xs i =
     (if 0 \<le> i \<and> i < int (length xs) then Inr (xs ! nat i)
      else if - int (length xs) \<le> i \<and> i < 0 then Inr (xs ! nat (int (length xs) + i))
      else Inl IndexError)"

definition slice_bound :: "nat \<Rightarrow> int \<Rightarrow> nat" where
  \<comment> \<open>A bound of \<^verbatim>\<open>a[lo:hi]\<close> on an axis of length \<open>n\<close>: negative bounds count from
      the end, and every bound is clipped to \<open>0..n\<close>.\<close>
  "slice_bound n i = (if i < 0 then nat (max 0 (int n + i)) else min n (nat i))"

definition py_slice :: "int \<Rightarrow> int \<Rightarrow> 'a list \<Rightarrow> 'a list" where
  \<comment> \<open>\<^verbatim>\<open>a[lo:hi]\<close>: the upper bound is exclusive.\<close>
  "py_slice lo hi xs =
     (let l = slice_bound (length xs) lo; h = slice_bound (length xs) hi
      in take (h - l) (drop l xs))"

definition set_slice :: "int \<Rightarrow> int \<Rightarrow> 'a list \<Rightarrow> 'a list \<Rightarrow> 'a list" where
  \<comment> \<open>\<^verbatim>\<open>a[lo:hi] = vs\<close> for \<open>vs\<close> as long as the slice: the entries from the lower
      bound on are overwritten by \<open>vs\<close>.\<close>
  "set_slice lo hi xs vs =
     (let l = slice_bound (length xs) lo
      in take l xs @ vs @ drop (l + length vs) xs)"

section \<open>ACS replacement (cells "Perform correction and ACS replacement", "Performing the correction")\<close>

text \<open>
  \<^verbatim>\<open>
  kspaceCorrectedReplaced = np.copy(kspaceCorrected)
  kspaceCorrectedReplaced[:,acsregionX[0]:acsregionX[acsx-1],acsregionY[0]:acsregionY[acsy-1]] = \
      kspaceAcs[0,:,acsregionX[0]:acsregionX[acsx-1],acsregionY[0]:acsregionY[acsy-1]]
  \<close>
  The wave path runs the same two statements on \<^verbatim>\<open>kspaceCorrectedWave\<close> and
  \<^verbatim>\<open>kspaceWaveAcs\<close>.  \<open>window\<close> is the block \<^verbatim>\<open>a[:, x0:x1, y0:y1]\<close> of a
  rank-3 array, \<open>set_window\<close> the assignment to it; NumPy raises \<^verbatim>\<open>ValueError\<close> when
  the block on the right does not have the shape of the block on the left (broadcasting
  of axes of length one is left out: the two arrays of the notebook have one shape).
\<close>

definition window :: "int \<Rightarrow> int \<Rightarrow> int \<Rightarrow> int \<Rightarrow> 'a list list list \<Rightarrow> 'a list list list" where
  "window x0 x1 y0 y1 a = map (\<lambda>ch. map (py_slice y0 y1) (py_slice x0 x1 ch)) a"

definition set_window ::
  "int \<Rightarrow> int \<Rightarrow> int \<Rightarrow> int \<Rightarrow> 'a list list list \<Rightarrow> 'a list list list \<Rightarrow> error + 'a list list list"
where
  "set_window x0 x1 y0 y1 dst src =
     (if map (map length) (window x0 x1 y0 y1 dst) = map (map length) src
      then Inr (map2 (\<lambda>dch sch.
              set_slice x0 x1 dch
                (map2 (\<lambda>drow srow. set_slice y0 y1 drow srow) (py_slice x0 x1 dch) sch))
              dst src)
      else Inl ValueError)"

definition kspaceCorrectedReplaced ::
  "'a list list list \<Rightarrow> 'a list list list list \<Rightarrow> int list \<Rightarrow> int list \<Rightarrow> int \<Rightarrow> int
     \<Rightarrow> error + 'a list list list"
where
  "kspaceCorrectedReplaced kspaceCorrected kspaceAcs acsregionX acsregionY acsx acsy =
     bind_e (py_index acsregionX 0) (\<lambda>x0.
     bind_e (py_index acsregionX (acsx - 1)) (\<lambda>x1.
     bind_e (py_index acsregionY 0) (\<lambda>y0.
     bind_e (py_index acsregionY (acsy - 1)) (\<lambda>y1.
     bind_e (py_index kspaceAcs 0) (\<lambda>acs0.
       set_window x0 x1 y0 y1 kspaceCorrected (window x0 x1 y0 y1 acs0))))))"

section \<open>Readout oversampling: \<^verbatim>\<open>resize\<close> and \<^verbatim>\<open>crop\<close> (cell "Defining wave encoding operators")\<close>

text \<open>
  \<^verbatim>\<open>
  padreadout = (Nro - M)//2

  def resize(x,padreadout,inpdims):
      xp = cp.get_array_module(x)
      if(inpdims == 3):
          return xp.pad(x,((0,0),(padreadout,padreadout),(0,0)),mode = 'constant',constant_values = 0)
      elif(inpdims == 4):
          return xp.pad(x,((0,0),(0,0),(padreadout,padreadout),(0,0)),mode = 'constant',constant_values = 0)

  crop = lambda x: x[:,:,Nro//2 - M//2:Nro//2 + M//2,:]
  \<close>
  \<open>resize\<close> is the function on a rank-4 array (the rank \<^verbatim>\<open>crop\<close> indexes): with
  \<^verbatim>\<open>inpdims == 3\<close> the three pad pairs do not fit four axes and with a negative
  pad width \<^verbatim>\<open>pad\<close> raises \<^verbatim>\<open>ValueError\<close>; with any other \<^verbatim>\<open>inpdims\<close> the
  function falls through and returns \<^verbatim>\<open>None\<close>.  \<open>Nro\<close> and \<open>M\<close> are the notebook's
  globals.  A padded row of zeros is as long as the rows it is put beside.
\<close>

definition padreadout :: "nat \<Rightarrow> nat \<Rightarrow> int" where
  "padreadout Nro M = (int Nro - int M) div 2"

definition pad_axis0 :: "nat \<Rightarrow> 'a::zero list list \<Rightarrow> 'a list list" where
  \<comment> \<open>\<open>p\<close> rows of zeros before and after the rows of a rank-2 block\<close>
  "pad_axis0 p rows =
     (let z = replicate (case rows of [] \<Rightarrow> 0 | r # _ \<Rightarrow> length r) 0
      in replicate p z @ rows @ replicate p z)"

definition resize ::
  "'a::zero list list list list \<Rightarrow> int \<Rightarrow> int \<Rightarrow> error + 'a list list list list option"
where
  "resize x pad inpdims =
     (if inpdims = 3 then Inl ValueError
      else if inpdims = 4 then
        (if pad < 0 then Inl ValueError
         else Inr (Some (map (map (pad_axis0 (nat pad))) x)))
      else Inr None)"

definition readout_length :: "nat \<Rightarrow> 'a list list list list \<Rightarrow> bool" where
  \<comment> \<open>the readout axis (axis 2) of a rank-4 array has length \<open>M\<close>\<close>
  "readout_length M x = list_all (list_all (\<lambda>s. length s = M)) x"

definition crop :: "nat \<Rightarrow> nat \<Rightarrow> 'a list list list list \<Rightarrow> 'a list list list list" where
  "crop Nro M x =
     map (map (py_slice (int Nro div 2 - int M div 2) (int Nro div 2 + int M div 2))) x"

section \<open>Slice shifts: \<^verbatim>\<open>performshift\<close> (cell "Shifting the slices/sensitivities")\<close>

text \<open>
  \<^verbatim>\<open>
  def performshift(x,shift,direction = 1):
      out = np.zeros(x.shape,dtype=complex)
      for ss in range(0,out.shape[-3]):
          out[:,ss,:,:] = np.roll(x[:,ss,:,:],direction*shift[ss])
      return out
  \<close>
  \<^verbatim>\<open>np.roll\<close> without an axis flattens its argument, rolls the flat array and restores
  the shape.  \<open>x\<close> is a rank-4 array, so \<^verbatim>\<open>out.shape[-3]\<close> is the length of axis 1; an
  array whose leading axis is empty is modelled with no slice at all.

  The shift vector of the notebook is \<^verbatim>\<open>shifts = np.round(...).astype(int)\<close>, an array of
  \<^verbatim>\<open>np.int64\<close>, and \<open>direction\<close> is the Python integer \<open>1\<close> or \<open>-1\<close>, which NumPy
  converts to the type of the entry: the product \<^verbatim>\<open>direction*shift[ss]\<close> is an
  \<^verbatim>\<open>np.int64\<close> computed modulo \<open>2 ^ 64\<close> (NumPy warns on overflow and returns the wrapped
  value).  Both factors are 64-bit words here, \<open>*\<close> on words wraps, and \<open>sint\<close> reads the
  product as the signed integer that \<^verbatim>\<open>np.roll\<close> receives.
\<close>

type_synonym int64 = "64 word"

definition np_roll :: "int \<Rightarrow> 'a list \<Rightarrow> 'a list" where
  \<comment> \<open>a flat array rolled by \<open>k\<close>: the entry at \<open>i\<close> moves to \<open>(i + k) mod n\<close>\<close>
  "np_roll k xs =
     (if xs = [] then []
      else let n = length xs; s = nat (k mod int n)
           in drop (n - s) xs @ take (n - s) xs)"

fun chop :: "nat list \<Rightarrow> 'a list \<Rightarrow> 'a list list" where
  "chop [] xs = []"
| "chop (n # ns) xs = take n xs # chop ns (drop n xs)"

definition ravel3 :: "'a list list list \<Rightarrow> 'a list" where
  "ravel3 a = concat (concat a)"

definition reshape_as :: "'b list list list \<Rightarrow> 'a list \<Rightarrow> 'a list list list" where
  \<comment> \<open>a flat array in the shape of the rank-3 array \<open>t\<close>\<close>
  "reshape_as t flat = chop (map length t) (chop (map length (concat t)) flat)"

definition np_roll3 :: "int \<Rightarrow> 'a list list list \<Rightarrow> 'a list list list" where
  "np_roll3 k a = reshape_as a (np_roll k (ravel3 a))"

definition get_slice :: "nat \<Rightarrow> 'a list list list list \<Rightarrow> 'a list list list" where
  \<comment> \<open>\<^verbatim>\<open>x[:,ss,:,:]\<close>\<close>
  "get_slice ss x = map (\<lambda>xa. xa ! ss) x"

definition put_slice ::
  "nat \<Rightarrow> 'a list list list \<Rightarrow> 'a list list list list \<Rightarrow> 'a list list list list" where
  \<comment> \<open>\<^verbatim>\<open>out[:,ss,:,:] = v\<close>\<close>
  "put_slice ss v out = map2 (\<lambda>oa va. oa[ss := va]) out v"

fun shift_loop ::
  "complex list list list list \<Rightarrow> int64 list \<Rightarrow> int64 \<Rightarrow> nat list \<Rightarrow> complex list list list list
     \<Rightarrow> error + complex list list list list"
where
  "shift_loop x shift direction [] out = Inr out"
| "shift_loop x shift direction (ss # rest) out =
     bind_e (py_index shift (int ss)) (\<lambda>k.
       shift_loop x shift direction rest
         (put_slice ss (np_roll3 (sint (direction * k)) (get_slice ss x)) out))"

definition performshift ::
  "complex list list list list \<Rightarrow> int64 list \<Rightarrow> int64 \<Rightarrow> error + complex list list list list"
where
  "performshift x shift direction =
     (let out = map (map (map (map (\<lambda>_. 0)))) x;
          nslices = (case out of [] \<Rightarrow> 0 | oa # _ \<Rightarrow> length oa)
      in shift_loop x shift direction [0..<nslices] out)"

section \<open>Centered Fourier transform\<close>

text \<open>
  Modelled from the spec: \<^verbatim>\<open>sig.fft2c\<close> and \<^verbatim>\<open>sig.ifft2c\<close> of
  \<^verbatim>\<open>utils/signalprocessing.py\<close>, which is not among the sources.  The spec (4.1, 4.2, 8)
  makes them the centered two-dimensional Fourier transform over the last two axes (zero
  frequency at index \<open>N div 2\<close>), normalised so that the inverse is also the adjoint of
  the forward transform: the factor is \<open>1 / sqrt (X * Y)\<close> in both directions.
\<close>

definition dft_kernel :: "nat \<Rightarrow> nat \<Rightarrow> nat \<Rightarrow> complex" where
  "dft_kernel N k n =
     cis (- (2 * pi * (real k - real (N div 2)) * (real n - real (N div 2)) / real N))"

definition idft_kernel :: "nat \<Rightarrow> nat \<Rightarrow> nat \<Rightarrow> complex" where
  "idft_kernel N k n =
     cis (2 * pi * (real k - real (N div 2)) * (real n - real (N div 2)) / real N)"

definition ncols :: "'a list list \<Rightarrow> nat" where
  "ncols a = (case a of [] \<Rightarrow> 0 | r # _ \<Rightarrow> length r)"

definition fft2c :: "complex list list \<Rightarrow> complex list list" where
  "fft2c a =
     (let X = length a; Y = ncols a
      in map (\<lambda>k. map (\<lambda>l.
            (\<Sum>m<X. \<Sum>n<Y. a ! m ! n * dft_kernel X k m * dft_kernel Y l n)
              / of_real (sqrt (real (X * Y)))) [0..<Y]) [0..<X])"

definition ifft2c :: "complex list list \<Rightarrow> complex list list" where
  "ifft2c a =
     (let X = length a; Y = ncols a
      in map (\<lambda>m. map (\<lambda>n.
            (\<Sum>k<X. \<Sum>l<Y. a ! k ! l * idft_kernel X k m * idft_kernel Y l n)
              / of_real (sqrt (real (X * Y)))) [0..<Y]) [0..<X])"

section \<open>SENSE operators (cells "Generating sense operators", "Performing the SENSE reconstruction")\<close>

text \<open>
  \<^verbatim>\<open>
  def senseForward(x,maps,mask):
      return mask * (sig.fft2c(maps*x))
  def senseAdjoint(x,maps,mask):
      xp = cp.get_array_module(x)
      return xp.sum(xp.conj(maps)*(sig.ifft2c(x)),-3)

  normal = lambda x: senseAdjoint(senseForward(x.reshape(M*numslices,N),coils,mask),\
                                            coils,mask).ravel()
  \<close>
  The image \<open>x\<close> is a rank-2 array, the coil maps and the k-space are rank-3 arrays
  (channel first), the mask is a real array of the k-space's shape
  (\<^verbatim>\<open>mask = np.zeros(slicesCoils.shape)\<close>) or the scalar of
  \<^verbatim>\<open>senseForward(smsSense,coils,1)\<close>.  An elementwise product of arrays of different
  shapes raises \<^verbatim>\<open>ValueError\<close> (broadcasting of axes of length one is left out); the
  product \<^verbatim>\<open>maps*x\<close> broadcasts the image over the channels.  The sum over an empty
  channel axis is modelled as the empty array.  The argument \<^verbatim>\<open>mask\<close> is written
  \<open>mask'\<close>.
\<close>

datatype mask_arg = MaskArray "real list list list" | MaskScalar real

definition mul2 :: "complex list list \<Rightarrow> complex list list \<Rightarrow> complex list list" where
  "mul2 a b = map2 (map2 (*)) a b"

definition apply_mask :: "mask_arg \<Rightarrow> complex list list list \<Rightarrow> error + complex list list list" where
  "apply_mask mask' k =
     (case mask' of
        MaskScalar m \<Rightarrow> Inr (map (map (map (\<lambda>z. of_real m * z))) k)
      | MaskArray ms \<Rightarrow>
          if map (map length) ms = map (map length) k
          then Inr (map2 (map2 (map2 (\<lambda>m z. of_real m * z))) ms k)
          else Inl ValueError)"

definition sum_axis0 :: "complex list list list \<Rightarrow> complex list list" where
  \<comment> \<open>\<^verbatim>\<open>xp.sum(a, -3)\<close> of a rank-3 array\<close>
  "sum_axis0 a =
     (case a of [] \<Rightarrow> []
      | a0 # _ \<Rightarrow> map (\<lambda>i. map (\<lambda>j. \<Sum>c<length a. a ! c ! i ! j) [0..<ncols a0]) [0..<length a0])"

definition senseForward ::
  "complex list list \<Rightarrow> complex list list list \<Rightarrow> mask_arg \<Rightarrow> error + complex list list list"
where
  "senseForward x maps mask' =
     (if list_all (\<lambda>mc. map length mc = map length x) maps
      then apply_mask mask' (map fft2c (map (\<lambda>mc. mul2 mc x) maps))
      else Inl ValueError)"

definition senseAdjoint ::
  "complex list list list \<Rightarrow> complex list list list \<Rightarrow> mask_arg \<Rightarrow> error + complex list list"
where
  "senseAdjoint x maps mask' =
     (if map (map length) maps = map (map length) (map ifft2c x)
      then Inr (sum_axis0 (map2 mul2 (map (map (map cnj)) maps) (map ifft2c x)))
      else Inl ValueError)"

definition reshape2 :: "nat \<Rightarrow> nat \<Rightarrow> 'a list \<Rightarrow> error + 'a list list" where
  \<comment> \<open>\<^verbatim>\<open>x.reshape(X, Y)\<close> of a flat array\<close>
  "reshape2 X Y x = (if length x = X * Y then Inr (chop (replicate X Y) x) else Inl ValueError)"

definition normal ::
  "nat \<Rightarrow> nat \<Rightarrow> nat \<Rightarrow> complex list list list \<Rightarrow> mask_arg \<Rightarrow> complex list \<Rightarrow> error + complex list"
where
  "normal M numslices N coils mask' x =
     bind_e (reshape2 (M * numslices) N x) (\<lambda>x2.
     bind_e (senseForward x2 coils mask') (\<lambda>k.
     bind_e (senseAdjoint k coils mask') (\<lambda>im. Inr (concat im))))"

text \<open>
  The inner product of the claims, \<open>\<langle>a, b\<rangle> = \<Sum> conj(a\<^sub>i) b\<^sub>i\<close> over flat arrays
  (\<^verbatim>\<open>np.vdot\<close>), and its form on rank-2 arrays of shape \<open>X\<close> by \<open>Y\<close>.
\<close>

definition vdot :: "complex list \<Rightarrow> complex list \<Rightarrow> complex" where
  "vdot a b = sum_list (map2 (\<lambda>u v. cnj u * v) a b)"

definition vdot2 :: "nat \<Rightarrow> nat \<Rightarrow> complex list list \<Rightarrow> complex list list \<Rightarrow> complex" where
  "vdot2 X Y a b = (\<Sum>i<X. \<Sum>j<Y. cnj (a ! i ! j) * b ! i ! j)"

definition rect2 :: "nat \<Rightarrow> nat \<Rightarrow> 'a list list \<Rightarrow> bool" where
  "rect2 X Y a = (length a = X \<and> list_all (\<lambda>r. length r = Y) a)"

definition rect3 :: "nat \<Rightarrow> nat \<Rightarrow> nat \<Rightarrow> 'a list list list \<Rightarrow> bool" where
  "rect3 C X Y a = (length a = C \<and> list_all (rect2 X Y) a)"

section \<open>Conjugate gradient (\<^verbatim>\<open>iterative.conjgrad\<close>)\<close>

text \<open>
  Modelled from the spec: \<^verbatim>\<open>iterative.conjgrad\<close> of \<^verbatim>\<open>utils/iterative.py\<close>, which is not
  among the sources (the notebook only calls it:
  \<^verbatim>\<open>iterative.conjgrad(normal,kadj.ravel(),kadj.ravel(),ite = 20)\<close>).  Section 4.4 of the
  spec: residual \<open>r0 = b - A(x0)\<close>, direction \<open>p0 = r0\<close>; each step
  \<open>\<alpha> = (r\<cdot>r)/(p\<cdot>A(p))\<close>, \<open>x += \<alpha> p\<close>, \<open>r_new = r - \<alpha> A(p)\<close>,
  \<open>\<beta> = (r_new\<cdot>r_new)/(r\<cdot>r)\<close>, \<open>p = r_new + \<beta> p\<close>; exactly \<open>iterations\<close> steps, no
  convergence test; the final \<open>x\<close> is returned.  A step whose denominator \<open>p\<cdot>A(p)\<close> is
  zero is undefined (a precondition left to the caller): it is the value \<open>None\<close>.
  Vectors are flat complex arrays and the dot product is \<open>vdot\<close>; no proof below looks
  into it.
\<close>

record cg_state =
  cg_x :: "complex list"
  cg_r :: "complex list"
  cg_p :: "complex list"

definition axpy :: "complex \<Rightarrow> complex list \<Rightarrow> complex list \<Rightarrow> complex list" where
  \<comment> \<open>\<open>y + a * x\<close>, entry by entry\<close>
  "axpy a x y = map2 (\<lambda>yi xi. yi + a * xi) y x"

definition cg_init :: "(complex list \<Rightarrow> complex list) \<Rightarrow> complex list \<Rightarrow> complex list \<Rightarrow> cg_state" where
  "cg_init A b x0 = (let r0 = axpy (- 1) (A x0) b in \<lparr>cg_x = x0, cg_r = r0, cg_p = r0\<rparr>)"

definition cg_update :: "(complex list \<Rightarrow> complex list) \<Rightarrow> cg_state \<Rightarrow> cg_state" where
  "cg_update A st =
     (let Ap = A (cg_p st);
          rr = vdot (cg_r st) (cg_r st);
          alpha = rr / vdot (cg_p st) Ap;
          x_new = axpy alpha (cg_p st) (cg_x st);
          r_new = axpy (- alpha) Ap (cg_r st);
          beta = vdot r_new r_new / rr;
          p_new = axpy beta (cg_p st) r_new
      in \<lparr>cg_x = x_new, cg_r = r_new, cg_p = p_new\<rparr>)"

fun cg_loop :: "(complex list \<Rightarrow> complex list) \<Rightarrow> nat \<Rightarrow> cg_state \<Rightarrow> cg_state option" where
  "cg_loop A 0 st = Some st"
| "cg_loop A (Suc n) st =
     (if vdot (cg_p st) (A (cg_p st)) = 0 then None else cg_loop A n (cg_update A st))"

definition conjgrad ::
  "(complex list \<Rightarrow> complex list) \<Rightarrow> complex list \<Rightarrow> complex list \<Rightarrow> nat \<Rightarrow> complex list option"
where
  "conjgrad A b x0 iterations = map_option cg_x (cg_loop A iterations (cg_init A b x0))"

text \<open>
  The precondition of the claim: the denominator \<open>p\<cdot>A(p)\<close> is not zero at any of the first
  \<open>n\<close> steps from a state.
\<close>

fun nondegenerate :: "(complex list \<Rightarrow> complex list) \<Rightarrow> nat \<Rightarrow> cg_state \<Rightarrow> bool" where
  "nondegenerate A 0 st = True"
| "nondegenerate A (Suc n) st =
     (vdot (cg_p st) (A (cg_p st)) \<noteq> 0 \<and> nondegenerate A n (cg_update A st))"

section \<open>SPARK correction (\<^verbatim>\<open>applySparkCorrection\<close>)\<close>

text \<open>
  \<^verbatim>\<open>
  def applySparkCorrection(kspaceToCorrect,kspaceGrappaSplit,real_model,imag_model,chanScaleFactorReal,chanScaleFactorImag):
      correctionr = real_model(torch.unsqueeze(kspaceGrappaSplit,axis=0))[0].cpu().detach().numpy()
      correctioni = imag_model(torch.unsqueeze(kspaceGrappaSplit,axis=0))[0].cpu().detach().numpy()
      corrected = correctionr[0,0,:,:]/chanScaleFactorReal + 1j * correctioni[0,0,:,:] / chanScaleFactorImag + kspaceToCorrect
      return corrected
  \<close>
  The two networks (\<^verbatim>\<open>models.SPARK_Netv2\<close>, trained by \<^verbatim>\<open>trainingSparkNetwork\<close>) are
  parameters: functions from the rank-4 input to the first component of their output, a
  rank-4 real array.  Floating-point numbers are exact reals here, rounding is not
  modelled; NumPy divides by a zero scale factor to \<^verbatim>\<open>inf\<close> or \<^verbatim>\<open>nan\<close>, which the
  reals do not have, so the properties of the de-scaling are stated for scale factors
  that are not zero.
\<close>

definition add2 :: "complex list list \<Rightarrow> complex list list \<Rightarrow> error + complex list list" where
  \<comment> \<open>the sum of two rank-2 arrays of one shape\<close>
  "add2 a b = (if map length a = map length b then Inr (map2 (map2 (+)) a b) else Inl ValueError)"

definition applySparkCorrection ::
  "complex list list \<Rightarrow> real list list list
     \<Rightarrow> (real list list list list \<Rightarrow> real list list list list)
     \<Rightarrow> (real list list list list \<Rightarrow> real list list list list)
     \<Rightarrow> real \<Rightarrow> real \<Rightarrow> error + complex list list"
where
  "applySparkCorrection kspaceToCorrect kspaceGrappaSplit real_model imag_model
       chanScaleFactorReal chanScaleFactorImag =
     (let correctionr = real_model [kspaceGrappaSplit];
          correctioni = imag_model [kspaceGrappaSplit]
      in bind_e (bind_e (py_index correctionr 0) (\<lambda>c0. py_index c0 0)) (\<lambda>cr.
         bind_e (bind_e (py_index correctioni 0) (\<lambda>c0. py_index c0 0)) (\<lambda>ci.
         bind_e (add2 (map (map (\<lambda>v. of_real (v / chanScaleFactorReal))) cr)
                      (map (map (\<lambda>v. \<i> * of_real v / of_real chanScaleFactorImag)) ci)) (\<lambda>s.
           add2 s kspaceToCorrect))))"

section \<open>Floating-point values with infinities\<close>

text \<open>
  \<^verbatim>\<open>reformattingKspaceForSpark\<close> divides by a maximum that can be zero.  NumPy's
  \<^verbatim>\<open>float64\<close> does not raise there (it warns and yields \<^verbatim>\<open>inf\<close>), so the values of
  this function are reals extended by the two infinities and \<^verbatim>\<open>nan\<close>.  Finite
  arithmetic is exact: rounding and overflow are not modelled.  \<open>recip\<close> is
  \<^verbatim>\<open>1/x\<close>; its argument in the program is a maximum of absolute values, so a zero is
  \<^verbatim>\<open>+0.0\<close> and its reciprocal is \<^verbatim>\<open>+inf\<close>.
\<close>

datatype npfloat = Fin real | PosInf | NegInf | NaN

type_synonym npcomplex = "npfloat \<times> npfloat"

fun fabs :: "npfloat \<Rightarrow> npfloat" where
  "fabs (Fin r) = Fin \<bar>r\<bar>"
| "fabs PosInf = PosInf"
| "fabs NegInf = PosInf"
| "fabs NaN = NaN"

fun fmax :: "npfloat \<Rightarrow> npfloat \<Rightarrow> npfloat" where
  "fmax NaN _ = NaN"
| "fmax _ NaN = NaN"
| "fmax PosInf _ = PosInf"
| "fmax _ PosInf = PosInf"
| "fmax NegInf y = y"
| "fmax x NegInf = x"
| "fmax (Fin x) (Fin y) = Fin (max x y)"

fun recip :: "npfloat \<Rightarrow> npfloat" where
  "recip (Fin r) = (if r = 0 then PosInf else Fin (1 / r))"
| "recip PosInf = Fin 0"
| "recip NegInf = Fin 0"
| "recip NaN = NaN"

fun fneg :: "npfloat \<Rightarrow> npfloat" where
  "fneg (Fin r) = Fin (- r)"
| "fneg PosInf = NegInf"
| "fneg NegInf = PosInf"
| "fneg NaN = NaN"

fun fadd :: "npfloat \<Rightarrow> npfloat \<Rightarrow> npfloat" where
  "fadd NaN _ = NaN"
| "fadd _ NaN = NaN"
| "fadd (Fin x) (Fin y) = Fin (x + y)"
| "fadd PosInf NegInf = NaN"
| "fadd NegInf PosInf = NaN"
| "fadd PosInf _ = PosInf"
| "fadd NegInf _ = NegInf"
| "fadd _ y = y"

definition fsub :: "npfloat \<Rightarrow> npfloat \<Rightarrow> npfloat" where
  "fsub x y = fadd x (fneg y)"

fun fmul :: "npfloat \<Rightarrow> npfloat \<Rightarrow> npfloat" where
  "fmul NaN _ = NaN"
| "fmul _ NaN = NaN"
| "fmul (Fin x) (Fin y) = Fin (x * y)"
| "fmul (Fin x) y = (if x = 0 then NaN else if 0 < x then y else fneg y)"
| "fmul x (Fin y) = (if y = 0 then NaN else if 0 < y then x else fneg x)"
| "fmul PosInf y = y"
| "fmul NegInf y = fneg y"

definition csub :: "npcomplex \<Rightarrow> npcomplex \<Rightarrow> npcomplex" where
  "csub z w = (fsub (fst z) (fst w), fsub (snd z) (snd w))"

definition np_amax :: "npfloat list \<Rightarrow> error + npfloat" where
  \<comment> \<open>\<^verbatim>\<open>np.amax\<close> of the entries of an array: an empty array raises\<close>
  "np_amax xs = (case xs of [] \<Rightarrow> Inl ValueError | x # rest \<Rightarrow> Inr (foldl fmax x rest))"

section \<open>Arrays in memory\<close>

text \<open>
  Whether \<^verbatim>\<open>reformattingKspaceForSpark\<close> changes its caller's arrays depends on which
  NumPy operations return views and which return new arrays.  The memory is a list of
  buffers, an address is an index into it, and an array object is a view of a buffer:
  basic slicing, \<^verbatim>\<open>np.real\<close> and \<^verbatim>\<open>np.imag\<close> of a complex array return views; a
  binary operation, \<^verbatim>\<open>np.copy\<close>, \<^verbatim>\<open>np.concatenate\<close> and \<^verbatim>\<open>np.zeros\<close> allocate.  An
  in-place operation on a view writes to the buffer under it.
\<close>

type_synonym addr = nat

datatype buffer =
    CBuf "npcomplex list list list list"
  | RBuf "npfloat list list list list"
  | RMat "npfloat list list"

type_synonym store = "buffer list"

datatype view =
    AllOf addr
  | RealOf addr
  | ImagOf addr
  | Window addr int int int int

definition cbuf :: "buffer \<Rightarrow> npcomplex list list list list" where
  "cbuf b = (case b of CBuf x \<Rightarrow> x | _ \<Rightarrow> [])"

definition rbuf :: "buffer \<Rightarrow> npfloat list list list list" where
  "rbuf b = (case b of RBuf x \<Rightarrow> x | _ \<Rightarrow> [])"

definition rmat :: "buffer \<Rightarrow> npfloat list list" where
  "rmat b = (case b of RMat m \<Rightarrow> m | _ \<Rightarrow> [])"

definition map4 :: "('a \<Rightarrow> 'b) \<Rightarrow> 'a list list list list \<Rightarrow> 'b list list list list" where
  "map4 f = map (map (map (map f)))"

definition zip4 ::
  "('a \<Rightarrow> 'b \<Rightarrow> 'c) \<Rightarrow> 'a list list list list \<Rightarrow> 'b list list list list \<Rightarrow> 'c list list list list"
where
  "zip4 f = map2 (map2 (map2 (map2 f)))"

fun load_complex :: "store \<Rightarrow> view \<Rightarrow> npcomplex list list list list" where
  "load_complex st (AllOf a) = cbuf (st ! a)"
| "load_complex st (Window a x0 x1 y0 y1) =
     map (map (\<lambda>p. map (py_slice y0 y1) (py_slice x0 x1 p))) (cbuf (st ! a))"
| "load_complex st (RealOf a) = []"
| "load_complex st (ImagOf a) = []"

fun load_real :: "store \<Rightarrow> view \<Rightarrow> npfloat list list list list" where
  "load_real st (AllOf a) = rbuf (st ! a)"
| "load_real st (RealOf a) = map4 fst (cbuf (st ! a))"
| "load_real st (ImagOf a) = map4 snd (cbuf (st ! a))"
| "load_real st (Window a x0 x1 y0 y1) = []"

definition alloc :: "store \<Rightarrow> buffer \<Rightarrow> addr \<times> store" where
  "alloc st b = (length st, st @ [b])"

definition np_real :: "view \<Rightarrow> view" where
  \<comment> \<open>\<^verbatim>\<open>np.real\<close>; the program applies it to whole complex arrays only\<close>
  "np_real v = (case v of AllOf a \<Rightarrow> RealOf a | _ \<Rightarrow> v)"

definition np_imag :: "view \<Rightarrow> view" where
  \<comment> \<open>\<^verbatim>\<open>np.imag\<close>, likewise\<close>
  "np_imag v = (case v of AllOf a \<Rightarrow> ImagOf a | _ \<Rightarrow> v)"

definition np_copy :: "store \<Rightarrow> view \<Rightarrow> view \<times> store" where
  "np_copy st v = (let (a, st') = alloc st (CBuf (load_complex st v)) in (AllOf a, st'))"

definition np_subtract :: "store \<Rightarrow> view \<Rightarrow> view \<Rightarrow> error + view \<times> store" where
  \<comment> \<open>\<^verbatim>\<open>v - w\<close> of complex arrays of one shape (broadcasting of axes of length one is
      left out)\<close>
  "np_subtract st v w =
     (let x = load_complex st v; y = load_complex st w
      in if map (map (map length)) x = map (map (map length)) y
         then (let (a, st') = alloc st (CBuf (zip4 csub x y)) in Inr (AllOf a, st'))
         else Inl ValueError)"

definition np_concatenate1 :: "store \<Rightarrow> view \<Rightarrow> view \<Rightarrow> view \<times> store" where
  \<comment> \<open>\<^verbatim>\<open>np.concatenate((v, w), axis=1)\<close> of two real views of one array\<close>
  "np_concatenate1 st v w =
     (let (a, st') = alloc st (RBuf (map2 (@) (load_real st v) (load_real st w)))
      in (AllOf a, st'))"

definition np_zeros2 :: "store \<Rightarrow> nat \<Rightarrow> nat \<Rightarrow> addr \<times> store" where
  "np_zeros2 st E C = alloc st (RMat (replicate E (replicate C (Fin 0))))"

definition set_entry :: "store \<Rightarrow> addr \<Rightarrow> nat \<Rightarrow> nat \<Rightarrow> npfloat \<Rightarrow> store" where
  \<comment> \<open>\<^verbatim>\<open>m[e,c] = v\<close>\<close>
  "set_entry st a e c v = (let m = rmat (st ! a) in st[a := RMat (m[e := (m ! e)[c := v]])])"

fun base :: "view \<Rightarrow> addr" where
  \<comment> \<open>the buffer under a view\<close>
  "base (AllOf a) = a"
| "base (RealOf a) = a"
| "base (ImagOf a) = a"
| "base (Window a x0 x1 y0 y1) = a"

fun imul_e :: "store \<Rightarrow> view \<Rightarrow> nat \<Rightarrow> npfloat \<Rightarrow> store" where
  \<comment> \<open>\<^verbatim>\<open>v[e,:,:,:] *= s\<close> for a real array \<open>v\<close>: written to the buffer under the view (the
      program never writes through a window)\<close>
  "imul_e st (AllOf a) e s =
     (let x = rbuf (st ! a) in st[a := RBuf (x[e := map (map (map (\<lambda>u. fmul u s))) (x ! e)])])"
| "imul_e st (RealOf a) e s =
     (let x = cbuf (st ! a)
      in st[a := CBuf (x[e := map (map (map (\<lambda>z. (fmul (fst z) s, snd z)))) (x ! e)])])"
| "imul_e st (ImagOf a) e s =
     (let x = cbuf (st ! a)
      in st[a := CBuf (x[e := map (map (map (\<lambda>z. (fst z, fmul (snd z) s)))) (x ! e)])])"
| "imul_e st (Window a x0 x1 y0 y1) e s = st"

fun imul_ec :: "store \<Rightarrow> view \<Rightarrow> nat \<Rightarrow> nat \<Rightarrow> npfloat \<Rightarrow> store" where
  \<comment> \<open>\<^verbatim>\<open>v[e,c,:,:] *= s\<close> for a real array \<open>v\<close>\<close>
  "imul_ec st (AllOf a) e c s =
     (let x = rbuf (st ! a)
      in st[a := RBuf (x[e := (x ! e)[c := map (map (\<lambda>u. fmul u s)) (x ! e ! c)]])])"
| "imul_ec st (RealOf a) e c s =
     (let x = cbuf (st ! a)
      in st[a := CBuf (x[e := (x ! e)[c := map (map (\<lambda>z. (fmul (fst z) s, snd z))) (x ! e ! c)]])])"
| "imul_ec st (ImagOf a) e c s =
     (let x = cbuf (st ! a)
      in st[a := CBuf (x[e := (x ! e)[c := map (map (\<lambda>z. (fst z, fmul (snd z) s))) (x ! e ! c)]])])"
| "imul_ec st (Window a x0 x1 y0 y1) e c s = st"

section \<open>\<^verbatim>\<open>reformattingKspaceForSpark\<close>\<close>

text \<open>
  \<^verbatim>\<open>
  def reformattingKspaceForSpark(inputKspace,kspaceOriginal,acsregionX,acsregionY,acsx,acsy,normalizationflag):
      [E,C,_,_] = inputKspace.shape
      kspaceAcsCrop     = kspaceOriginal[:,:,acsregionX[0]:acsregionX[acsx-1]+1,acsregionY[0]:acsregionY[acsy-1]+1]
      kspaceAcsGrappa   = inputKspace[:,:,acsregionX[0]:acsregionX[acsx-1]+1,acsregionY[0]:acsregionY[acsy-1]+1]
      kspaceAcsDifference = kspaceAcsCrop - kspaceAcsGrappa
      acs_difference_real = np.real(kspaceAcsDifference)
      acs_difference_imag = np.imag(kspaceAcsDifference)
      kspace_grappa = np.copy(inputKspace)
      kspace_grappa_real  = np.real(kspace_grappa)
      kspace_grappa_imag  = np.imag(kspace_grappa)
      kspace_grappa_split = np.concatenate((kspace_grappa_real, kspace_grappa_imag), axis=1)
      chan_scale_factors_real = np.zeros((E,C),dtype = 'float')
      chan_scale_factors_imag = np.zeros((E,C),dtype = 'float')
      for e in range(E):
          if(normalizationflag):
              scale_factor_input = 1/np.amax(np.abs(kspace_grappa_split[e,:,:,:]))
              kspace_grappa_split[e,:,:,:] *= scale_factor_input
          for c in range(C):
              if(normalizationflag):
                  scale_factor_real = 1/np.amax(np.abs(acs_difference_real[e,c,:,:]))
                  scale_factor_imag = 1/np.amax(np.abs(acs_difference_imag[e,c,:,:]))
              else:
                  scale_factor_real = 1
                  scale_factor_imag = 1
              chan_scale_factors_real[e,c] = scale_factor_real
              chan_scale_factors_imag[e,c] = scale_factor_imag
              acs_difference_real[e,c,:,:] *= scale_factor_real
              acs_difference_imag[e,c,:,:] *= scale_factor_imag
  \<close>
  After the loops both difference arrays get two axes of length one
  (\<^verbatim>\<open>np.expand_dims(..., axis=2)\<close>, twice), the split input and the two difference
  arrays become tensors (\<^verbatim>\<open>torch.from_numpy(...).to(device, dtype=torch.float)\<close>), and
  the function returns
  \<^verbatim>\<open>kspace_grappa_split, acs_difference_real, acs_difference_imag, chan_scale_factors_real, chan_scale_factors_imag\<close>.
  The two k-space arguments are the addresses of complex rank-4 arrays of the caller.
  The function returns its result, or the error it raised, and the memory it leaves.
  The three tensors returned are new (\<^verbatim>\<open>.to(device, dtype=torch.float)\<close> converts to
  single precision); the result holds their values and those of the two tables.
\<close>

record spark_data =
  kspace_grappa_split :: "npfloat list list list list"
  acs_difference_real :: "npfloat list list list list list list"
  acs_difference_imag :: "npfloat list list list list list list"
  chan_scale_factors_real :: "npfloat list list"
  chan_scale_factors_imag :: "npfloat list list"

definition scale_factor :: "npfloat list \<Rightarrow> error + npfloat" where
  \<comment> \<open>\<^verbatim>\<open>1/np.amax(np.abs(a))\<close> for the entries of \<open>a\<close>\<close>
  "scale_factor xs = bind_e (np_amax (map fabs xs)) (\<lambda>m. Inr (recip m))"

definition chan_step ::
  "bool \<Rightarrow> view \<Rightarrow> view \<Rightarrow> addr \<Rightarrow> addr \<Rightarrow> nat \<Rightarrow> nat \<Rightarrow> store \<Rightarrow> error + store"
where
  \<comment> \<open>the body of the loop over the channels\<close>
  "chan_step flag dr di tr ti e c st =
     (case (if flag
            then bind_e (scale_factor (concat (load_real st dr ! e ! c))) (\<lambda>sr.
                 bind_e (scale_factor (concat (load_real st di ! e ! c))) (\<lambda>si. Inr (sr, si)))
            else Inr (Fin 1, Fin 1)) of
        Inl err \<Rightarrow> Inl err
      | Inr (scale_factor_real, scale_factor_imag) \<Rightarrow>
          Inr (imul_ec
                (imul_ec
                  (set_entry (set_entry st tr e c scale_factor_real) ti e c scale_factor_imag)
                  dr e c scale_factor_real)
                di e c scale_factor_imag))"

fun loop_c ::
  "bool \<Rightarrow> view \<Rightarrow> view \<Rightarrow> addr \<Rightarrow> addr \<Rightarrow> nat \<Rightarrow> nat list \<Rightarrow> store \<Rightarrow> error option \<times> store"
where
  "loop_c flag dr di tr ti e [] st = (None, st)"
| "loop_c flag dr di tr ti e (c # cs) st =
     (case chan_step flag dr di tr ti e c st of
        Inl err \<Rightarrow> (Some err, st)
      | Inr st1 \<Rightarrow> loop_c flag dr di tr ti e cs st1)"

definition input_step :: "bool \<Rightarrow> view \<Rightarrow> nat \<Rightarrow> store \<Rightarrow> error + store" where
  \<comment> \<open>the scaling of the input of one contrast\<close>
  "input_step flag split e st =
     (if flag
      then bind_e (scale_factor (concat (concat (load_real st split ! e)))) (\<lambda>scale_factor_input.
             Inr (imul_e st split e scale_factor_input))
      else Inr st)"

fun loop_e ::
  "bool \<Rightarrow> view \<Rightarrow> view \<Rightarrow> view \<Rightarrow> addr \<Rightarrow> addr \<Rightarrow> nat \<Rightarrow> nat list \<Rightarrow> store
     \<Rightarrow> error option \<times> store"
where
  "loop_e flag split dr di tr ti C [] st = (None, st)"
| "loop_e flag split dr di tr ti C (e # es) st =
     (case input_step flag split e st of
        Inl err \<Rightarrow> (Some err, st)
      | Inr st1 \<Rightarrow>
          (case loop_c flag dr di tr ti e [0..<C] st1 of
             (Some err, st2) \<Rightarrow> (Some err, st2)
           | (None, st2) \<Rightarrow> loop_e flag split dr di tr ti C es st2))"

definition acs_bounds :: "int list \<Rightarrow> int list \<Rightarrow> int \<Rightarrow> int \<Rightarrow> error + int \<times> int \<times> int \<times> int" where
  \<comment> \<open>the slice bounds \<^verbatim>\<open>acsregionX[0]\<close>, \<^verbatim>\<open>acsregionX[acsx-1]+1\<close>, \<^verbatim>\<open>acsregionY[0]\<close>,
      \<^verbatim>\<open>acsregionY[acsy-1]+1\<close>\<close>
  "acs_bounds acsregionX acsregionY acsx acsy =
     bind_e (py_index acsregionX 0) (\<lambda>x0.
     bind_e (py_index acsregionX (acsx - 1)) (\<lambda>x1.
     bind_e (py_index acsregionY 0) (\<lambda>y0.
     bind_e (py_index acsregionY (acsy - 1)) (\<lambda>y1. Inr (x0, x1 + 1, y0, y1 + 1)))))"

definition expand_dims22 :: "'a list list list list \<Rightarrow> 'a list list list list list list" where
  \<comment> \<open>\<^verbatim>\<open>np.expand_dims(a, axis=2)\<close>, twice\<close>
  "expand_dims22 a = map (map (\<lambda>b. [[b]])) a"

definition reformattingKspaceForSpark ::
  "store \<Rightarrow> addr \<Rightarrow> addr \<Rightarrow> int list \<Rightarrow> int list \<Rightarrow> int \<Rightarrow> int \<Rightarrow> bool
     \<Rightarrow> (error + spark_data) \<times> store"
where
  "reformattingKspaceForSpark st inputKspace kspaceOriginal acsregionX acsregionY acsx acsy
       normalizationflag =
     (let E = length (cbuf (st ! inputKspace));
          C = (case cbuf (st ! inputKspace) of [] \<Rightarrow> 0 | x0 # _ \<Rightarrow> length x0)
      in case acs_bounds acsregionX acsregionY acsx acsy of
           Inl err \<Rightarrow> (Inl err, st)
         | Inr (x0, x1, y0, y1) \<Rightarrow>
             (let kspaceAcsCrop = Window kspaceOriginal x0 x1 y0 y1;
                  kspaceAcsGrappa = Window inputKspace x0 x1 y0 y1
              in case np_subtract st kspaceAcsCrop kspaceAcsGrappa of
                   Inl err \<Rightarrow> (Inl err, st)
                 | Inr (kspaceAcsDifference, st1) \<Rightarrow>
                     (let dr = np_real kspaceAcsDifference;
                          di = np_imag kspaceAcsDifference;
                          (kspace_grappa, st2) = np_copy st1 (AllOf inputKspace);
                          (split, st3) =
                            np_concatenate1 st2 (np_real kspace_grappa) (np_imag kspace_grappa);
                          (tr, st4) = np_zeros2 st3 E C;
                          (ti, st5) = np_zeros2 st4 E C
                      in case loop_e normalizationflag split dr di tr ti C [0..<E] st5 of
                           (Some err, st6) \<Rightarrow> (Inl err, st6)
                         | (None, st6) \<Rightarrow>
                             (Inr \<lparr>kspace_grappa_split = load_real st6 split,
                                   acs_difference_real = expand_dims22 (load_real st6 dr),
                                   acs_difference_imag = expand_dims22 (load_real st6 di),
                                   chan_scale_factors_real = rmat (st6 ! tr),
                                   chan_scale_factors_imag = rmat (st6 ! ti)\<rparr>, st6))))"

text \<open>
  Shapes of rank-4 arrays, and the invariant of the two loops used in the proofs: the
  memory after the five allocations, with the difference array at address \<open>n\<close>, the
  split input at \<open>n + 2\<close> and the two tables at \<open>n + 3\<close> and \<open>n + 4\<close>, each of its shape.
  \<open>target_inv\<close> follows one pair \<open>(e0, c0)\<close>: until the loops reach it, its block of the
  difference array is the block \<open>B0\<close> computed at the start; from then on its table
  entries are the scale factors of \<open>B0\<close>.
\<close>

definition rect4 :: "nat \<Rightarrow> nat \<Rightarrow> nat \<Rightarrow> nat \<Rightarrow> 'a list list list list \<Rightarrow> bool" where
  "rect4 E C X Y a = (length a = E \<and> list_all (rect3 C X Y) a)"

definition spark_inv :: "nat \<Rightarrow> nat \<Rightarrow> nat \<Rightarrow> nat \<Rightarrow> nat \<Rightarrow> nat \<Rightarrow> nat \<Rightarrow> store \<Rightarrow> bool" where
  "spark_inv n E C ax ay X Y st =
     (length st = n + 5
      \<and> rect4 E C ax ay (cbuf (st ! n))
      \<and> rect4 E (2 * C) X Y (rbuf (st ! (n + 2)))
      \<and> rect2 E C (rmat (st ! (n + 3)))
      \<and> rect2 E C (rmat (st ! (n + 4))))"

definition target_inv ::
  "nat \<Rightarrow> nat \<Rightarrow> nat \<Rightarrow> npcomplex list list \<Rightarrow> bool \<Rightarrow> store \<Rightarrow> bool"
where
  "target_inv n e0 c0 B0 done st =
     (if done
      then scale_factor (concat (map (map fst) B0)) = Inr (rmat (st ! (n + 3)) ! e0 ! c0)
         \<and> scale_factor (concat (map (map snd) B0)) = Inr (rmat (st ! (n + 4)) ! e0 ! c0)
      else cbuf (st ! n) ! e0 ! c0 = B0)"

section \<open>Properties\<close>

subsection \<open>ACS replacement\<close>

text \<open>
  C1.  The ACS window is \<^verbatim>\<open>acsregionX[0]..acsregionX[acsx-1]\<close> by
  \<^verbatim>\<open>acsregionY[0]..acsregionY[acsy-1]\<close>, both ends included:
  \<^verbatim>\<open>reformattingKspaceForSpark\<close> crops it with \<^verbatim>\<open>acsregionX[acsx-1]+1\<close>.  The
  replacement step slices without the \<^verbatim>\<open>+1\<close>, so the last row and the last column of
  the window keep the corrected value.  One channel, a 4 by 4 k-space, corrected values
  0, measured values 1, window rows 1..2 and columns 1..2: only the entry (1,1) is
  overwritten; (1,2), (2,1) and (2,2) are in the window and keep the corrected value 0.
\<close>

theorem acs_replacement_misses_last_index:
  "kspaceCorrectedReplaced
     [[[0,0,0,0],[0,0,0,0],[0,0,0,0],[0,0,0,0::complex]]]
     [[[[1,1,1,1],[1,1,1,1],[1,1,1,1],[1,1,1,1]]]]
     [1,2] [1,2] 2 2
   = Inr [[[0,0,0,0],[0,1,0,0],[0,0,0,0],[0,0,0,0]]]"
  by (simp add: kspaceCorrectedReplaced_def bind_e_def py_index_def set_window_def window_def
      py_slice_def set_slice_def slice_bound_def)

subsection \<open>Readout oversampling\<close>

lemma crop_window_bounds:
  assumes "even M" "M \<le> Nro"
  shows "int Nro div 2 - int M div 2 = padreadout Nro M"
    and "int Nro div 2 + int M div 2 = padreadout Nro M + int M"
    and "0 \<le> padreadout Nro M"
  using assms unfolding padreadout_def by (auto elim!: evenE)

lemma py_slice_pad_axis0:
  assumes "0 \<le> lo" "hi = lo + int (length rows)"
  shows "py_slice lo hi (pad_axis0 (nat lo) rows) = rows"
  using assms
  by (simp add: py_slice_def pad_axis0_def slice_bound_def Let_def nat_add_distrib min_def)

text \<open>
  C5 as stated, for every native length \<open>M \<le> Nro\<close>, fails when \<open>M\<close> is odd: the window
  \<^verbatim>\<open>Nro//2 - M//2 : Nro//2 + M//2\<close> has \<open>2 * (M div 2) = M - 1\<close> entries.  With
  \<open>M = 1\<close> and \<open>Nro = 3\<close> (the notebook's \<^verbatim>\<open>os = 3\<close>) the padded readout axis is
  \<open>[0, 7, 0]\<close> and the cropped one is empty.
\<close>

theorem crop_resize_odd_counterexample:
  "(1::nat) \<le> 3
   \<and> readout_length 1 [[[[7::complex]]]]
   \<and> resize [[[[7::complex]]]] (padreadout 3 1) 4 = Inr (Some [[[[0], [7], [0]]]])
   \<and> map_sum id (map_option (crop 3 1)) (resize [[[[7::complex]]]] (padreadout 3 1) 4)
       = Inr (Some [[[]]])
   \<and> map_sum id (map_option (crop 3 1)) (resize [[[[7::complex]]]] (padreadout 3 1) 4)
       \<noteq> Inr (Some [[[[7]]]])"
  by (simp add: resize_def padreadout_def pad_axis0_def crop_def py_slice_def slice_bound_def
      readout_length_def Let_def)

text \<open>
  C5, amended: for every even native length \<open>M\<close> and every \<open>Nro \<ge> M\<close>, and every rank-4
  array \<open>x\<close> whose readout axis (axis 2) has length \<open>M\<close>, \<^verbatim>\<open>resize(x, padreadout, 4)\<close>
  with \<^verbatim>\<open>padreadout = (Nro - M)//2\<close> returns an array, and \<^verbatim>\<open>crop\<close> of it is \<open>x\<close>.
\<close>

theorem crop_resize_roundtrip_even:
  assumes "even M" and "M \<le> Nro"
    and "readout_length M x"
  shows "map_sum id (map_option (crop Nro M)) (resize x (padreadout Nro M) 4) = Inr (Some x)"
proof -
  let ?p = "padreadout Nro M"
  have p0: "0 \<le> ?p" using crop_window_bounds(3)[OF assms(1,2)] .
  have "map (map (py_slice ?p (?p + int M) \<circ> pad_axis0 (nat ?p))) x = x"
    using assms(3)
    by (intro map_idI) (auto simp: readout_length_def list_all_iff py_slice_pad_axis0[OF p0])
  then show ?thesis
    using p0 by (simp add: resize_def crop_def crop_window_bounds(1,2)[OF assms(1,2)] comp_def)
qed

theorem crop_resize_roundtrip_even_witness:
  "even (2::nat) \<and> (2::nat) \<le> 6
   \<and> readout_length 2 [[[[1, 2], [3, 4::complex]]]]
   \<and> map_sum id (map_option (crop 6 2)) (resize [[[[1, 2], [3, 4::complex]]]] (padreadout 6 2) 4)
       = Inr (Some [[[[1, 2], [3, 4]]]])"
  using crop_resize_roundtrip_even[of 2 6 "[[[[1, 2], [3, 4::complex]]]]"]
  by (simp add: readout_length_def)

subsection \<open>Slice shifts\<close>

lemma chop_concat: "chop (map length xss) (concat xss) = xss"
  by (induction xss) auto

lemma chop_exact:
  "sum_list ns = length xs \<Longrightarrow> map length (chop ns xs) = ns \<and> concat (chop ns xs) = xs"
  by (induction ns arbitrary: xs) auto

lemma reshape_as_ravel3: "reshape_as t (ravel3 t) = t"
  by (simp add: reshape_as_def ravel3_def chop_concat)

lemma reshape_as_shape:
  assumes "length f = length (ravel3 a)"
  shows "map length (reshape_as a f) = map length a"
    and "map length (concat (reshape_as a f)) = map length (concat a)"
    and "ravel3 (reshape_as a f) = f"
proof -
  let ?inner = "chop (map length (concat a)) f"
  have "sum_list (map length (concat a)) = length f"
    using assms by (simp add: ravel3_def length_concat)
  from chop_exact[OF this]
  have i1: "map length ?inner = map length (concat a)" and i2: "concat ?inner = f" by auto
  from i1 have "length ?inner = length (concat a)" by (metis length_map)
  then have "sum_list (map length a) = length ?inner" by (simp add: length_concat)
  from chop_exact[OF this]
  have o1: "map length (chop (map length a) ?inner) = map length a"
    and o2: "concat (chop (map length a) ?inner) = ?inner" by auto
  show "map length (reshape_as a f) = map length a" using o1 by (simp add: reshape_as_def)
  show "map length (concat (reshape_as a f)) = map length (concat a)"
    using o2 i1 by (simp add: reshape_as_def)
  show "ravel3 (reshape_as a f) = f" using o2 i2 by (simp add: reshape_as_def ravel3_def)
qed

lemma length_np_roll: "length (np_roll k xs) = length xs"
  by (auto simp: np_roll_def Let_def)

lemma neg_mod_nat:
  fixes k :: int and n :: nat
  assumes "0 < n"
  shows "(- k) mod int n = int ((n - nat (k mod int n)) mod n)"
proof (cases "k mod int n = 0")
  case True
  then show ?thesis by (simp add: zmod_zminus1_eq_if)
next
  case False
  have b: "0 \<le> k mod int n" "k mod int n < int n" using assms by simp_all
  then have "nat (k mod int n) < n" "0 < nat (k mod int n)" using False by linarith+
  then have "(n - nat (k mod int n)) mod n = n - nat (k mod int n)" by simp
  moreover have "(- k) mod int n = int n - k mod int n"
    using False by (simp add: zmod_zminus1_eq_if)
  ultimately show ?thesis using b by simp
qed

lemma np_roll_rotate:
  "np_roll k xs = rotate (nat ((- k) mod int (length xs))) xs"
proof (cases "xs = []")
  case True then show ?thesis by (simp add: np_roll_def)
next
  case False
  define n where "n = length xs"
  have n: "0 < n" using False by (simp add: n_def)
  define s where "s = nat (k mod int n)"
  have s: "s < n" using n by (simp add: s_def nat_less_iff)
  have "(- k) mod int n = int ((n - s) mod n)"
    unfolding s_def by (rule neg_mod_nat[OF n])
  then have "rotate (nat ((- k) mod int n)) xs = rotate ((n - s) mod n) xs" by simp
  also have "\<dots> = drop ((n - s) mod n) xs @ take ((n - s) mod n) xs"
    by (simp add: rotate_drop_take n_def)
  also have "\<dots> = drop (n - s) xs @ take (n - s) xs"
  proof (cases "s = 0")
    case True then show ?thesis by (simp add: n_def)
  next
    case False then show ?thesis using s by simp
  qed
  finally show ?thesis using False by (simp add: np_roll_def Let_def n_def s_def)
qed

lemma np_roll_inverse: "np_roll (- k) (np_roll k xs) = xs"
proof (cases "xs = []")
  case True then show ?thesis by (simp add: np_roll_def)
next
  case False
  define n where "n = length xs"
  have n: "0 < n" using False by (simp add: n_def)
  define s where "s = nat (k mod int n)"
  have s: "s < n" using n by (simp add: s_def nat_less_iff)
  have neg: "(- k) mod int n = int ((n - s) mod n)"
    unfolding s_def by (rule neg_mod_nat[OF n])
  have len: "length (np_roll k xs) = n"
    by (simp add: np_roll_rotate n_def)
  have fwd: "np_roll k xs = rotate ((n - s) mod n) xs"
    unfolding np_roll_rotate[of k xs] n_def[symmetric] neg by simp
  have bwd: "np_roll (- k) (np_roll k xs) = rotate s (np_roll k xs)"
    unfolding np_roll_rotate[of "- k" "np_roll k xs"] len s_def by simp
  have "np_roll (- k) (np_roll k xs) = rotate s (np_roll k xs)"
    by (rule bwd)
  also have "\<dots> = rotate s (rotate ((n - s) mod n) xs)"
    by (simp only: fwd)
  also have "\<dots> = rotate (s + (n - s) mod n) xs"
    by (simp only: rotate_rotate)
  also have "\<dots> = rotate ((s + (n - s) mod n) mod n) xs"
    unfolding n_def by (rule rotate_conv_mod)
  also have "(s + (n - s) mod n) mod n = 0"
  proof (cases "s = 0")
    case True then show ?thesis by simp
  next
    case False
    then have "(n - s) mod n = n - s" using s by simp
    then show ?thesis using s by simp
  qed
  finally show ?thesis by simp
qed

lemma np_roll3_inverse: "np_roll3 (- k) (np_roll3 k a) = a"
proof -
  have len: "length (np_roll k (ravel3 a)) = length (ravel3 a)" by (rule length_np_roll)
  note sh = reshape_as_shape[OF len]
  have "np_roll3 (- k) (np_roll3 k a) = reshape_as (np_roll3 k a) (np_roll (- k) (np_roll k (ravel3 a)))"
    using sh(3) by (simp add: np_roll3_def)
  also have "\<dots> = reshape_as a (ravel3 a)"
    using sh(1,2) by (simp add: np_roll_inverse reshape_as_def np_roll3_def)
  finally show ?thesis by (simp add: reshape_as_ravel3)
qed

lemma length_np_roll3: "length (np_roll3 k a) = length a"
  using reshape_as_shape(1)[OF length_np_roll[of k "ravel3 a"]]
  by (metis length_map np_roll3_def)

lemma shift_loop_foldl:
  "list_all (\<lambda>ss. ss < length shift) l \<Longrightarrow>
   shift_loop x shift d l out =
     Inr (foldl (\<lambda>o' ss. put_slice ss (np_roll3 (sint (d * shift ! ss)) (get_slice ss x)) o') out l)"
  by (induction l arbitrary: out) (auto simp: bind_e_def py_index_def)

lemma length_put_slice: "length v = length out \<Longrightarrow> length (put_slice ss v out) = length out"
  by (simp add: put_slice_def)

lemma put_slice_nth:
  "length v = length out \<Longrightarrow> a < length out \<Longrightarrow> put_slice ss v out ! a = (out ! a)[ss := v ! a]"
  by (simp add: put_slice_def)

lemma foldl_put_slice:
  assumes "\<And>ss. ss < n \<Longrightarrow> length (R ss) = length out"
  shows "length (foldl (\<lambda>o' ss. put_slice ss (R ss) o') out [0..<n]) = length out
       \<and> (\<forall>a<length out.
            length (foldl (\<lambda>o' ss. put_slice ss (R ss) o') out [0..<n] ! a) = length (out ! a)
          \<and> (\<forall>ss<length (out ! a).
               foldl (\<lambda>o' ss. put_slice ss (R ss) o') out [0..<n] ! a ! ss
                 = (if ss < n then R ss ! a else out ! a ! ss)))"
  using assms
proof (induction n)
  case 0
  then show ?case by simp
next
  case (Suc n)
  let ?prev = "foldl (\<lambda>o' ss. put_slice ss (R ss) o') out [0..<n]"
  have IH: "length ?prev = length out"
    "\<And>a. a < length out \<Longrightarrow> length (?prev ! a) = length (out ! a)"
    "\<And>a ss. a < length out \<Longrightarrow> ss < length (out ! a) \<Longrightarrow>
        ?prev ! a ! ss = (if ss < n then R ss ! a else out ! a ! ss)"
    using Suc by auto
  have Rn: "length (R n) = length ?prev" using Suc.prems[of n] IH(1) by simp
  have step: "foldl (\<lambda>o' ss. put_slice ss (R ss) o') out [0..<Suc n] = put_slice n (R n) ?prev"
    by simp
  show ?case
    unfolding step
    using IH put_slice_nth[OF Rn] length_put_slice[OF Rn]
    by (auto simp: nth_list_update less_Suc_eq)
qed

lemma performshift_entries:
  assumes "list_all (\<lambda>xa. length xa = length shift) x"
  shows "\<exists>y. performshift x shift d = Inr y \<and> length y = length x \<and>
           (\<forall>a<length x. length (y ! a) = length shift \<and>
              (\<forall>ss<length shift. y ! a ! ss = np_roll3 (sint (d * shift ! ss)) (get_slice ss x) ! a))"
proof (cases x)
  case Nil
  then show ?thesis by (simp add: performshift_def)
next
  case (Cons x0 xs)
  let ?out = "map (map (map (map (\<lambda>_. 0::complex)))) x"
  let ?R = "\<lambda>ss. np_roll3 (sint (d * shift ! ss)) (get_slice ss x)"
  let ?y = "foldl (\<lambda>o' ss. put_slice ss (?R ss) o') ?out [0..<length shift]"
  have rows: "\<And>a. a < length x \<Longrightarrow> length (x ! a) = length shift"
    using assms by (simp add: list_all_length)
  have ns: "(case ?out of [] \<Rightarrow> 0 | oa # _ \<Rightarrow> length oa) = length shift"
    using Cons rows[of 0] by simp
  have "performshift x shift d = shift_loop x shift d [0..<length shift] ?out"
    unfolding performshift_def Let_def ns ..
  also have "\<dots> = Inr ?y"
    by (rule shift_loop_foldl) (simp add: list_all_iff)
  finally have run: "performshift x shift d = Inr ?y" .
  have "\<And>ss. ss < length shift \<Longrightarrow> length (?R ss) = length ?out"
    by (simp add: length_np_roll3 get_slice_def)
  from foldl_put_slice[of "length shift" ?R ?out, OF this]
  have "length ?y = length x"
    and "\<And>a. a < length x \<Longrightarrow> length (?y ! a) = length shift"
    and "\<And>a ss. a < length x \<Longrightarrow> ss < length shift \<Longrightarrow> ?y ! a ! ss = ?R ss ! a"
    using rows by auto
  with run show ?thesis by blast
qed

lemma sint_int64_min: "sint (- (2 ^ 63) :: int64) = - (2 ^ 63)"
  by simp

lemma sint_negate_int64:
  fixes k :: int64
  assumes "k \<noteq> - (2 ^ 63)"
  shows "sint (- 1 * k) = - sint k"
proof -
  have "sint k \<noteq> - (2 ^ 63)"
  proof
    assume "sint k = - (2 ^ 63)"
    then have "sint k = sint (- (2 ^ 63) :: int64)" by (simp only: sint_int64_min)
    then have "k = - (2 ^ 63)" by (rule signed_word_eqI)
    with assms show False by simp
  qed
  moreover have "- (2 ^ 63) \<le> sint k" "sint k < 2 ^ 63"
    using sint_ge[of k] sint_lt[of k] by simp_all
  ultimately have "- (2 ^ 63) \<le> - sint k" "- sint k < 2 ^ 63" by linarith+
  then have "signed_take_bit 63 (- sint k) = - sint k"
    by (simp add: signed_take_bit_int_eq_self)
  then show ?thesis by (simp add: sint_word_minus)
qed

text \<open>
  C6 as stated, for every integer shift vector, fails: the shift vector is an
  \<^verbatim>\<open>np.int64\<close> array, and for the entry \<open>- 2 ^ 63\<close> the product \<^verbatim>\<open>-1*shift[ss]\<close> wraps back to \<open>- 2 ^ 63\<close>, so the shift and
  the unshift both roll a slice of three entries by \<open>(- 2 ^ 63) mod 3 = 1\<close>: the array
  \<open>[1, 2, 3]\<close> of shape \<open>(1, 1, 1, 3)\<close> comes back as \<open>[2, 3, 1]\<close>.
\<close>

theorem performshift_roundtrip_int64_min_counterexample:
  "performshift [[[[1, 2, 3]]]] [- (2 ^ 63)] 1 = Inr [[[[3, 1, 2]]]]
   \<and> performshift [[[[3, 1, 2]]]] [- (2 ^ 63)] (- 1) = Inr [[[[2, 3, 1]]]]
   \<and> bind_e (performshift [[[[1, 2, 3]]]] [- (2 ^ 63)] 1) (\<lambda>y. performshift y [- (2 ^ 63)] (- 1))
       = Inr [[[[2, 3, 1]]]]"
proof -
  have r: "np_roll3 (- 9223372036854775808) [[[a, b, c]]] = [[[c, a, b]]]" for a b c :: complex
    by (simp add: np_roll3_def np_roll_def reshape_as_def ravel3_def)
  have a: "performshift [[[[1, 2, 3]]]] [- (2 ^ 63)] 1 = Inr [[[[3, 1, 2]]]]"
    by (simp add: performshift_def bind_e_def py_index_def get_slice_def put_slice_def r)
  have b: "performshift [[[[3, 1, 2]]]] [- (2 ^ 63)] (- 1) = Inr [[[[2, 3, 1]]]]"
    by (simp add: performshift_def bind_e_def py_index_def get_slice_def put_slice_def r)
  from a b show ?thesis by (simp add: bind_e_def)
qed

text \<open>
  C6, amended: for every rank-4 complex array \<open>x\<close> and every \<^verbatim>\<open>np.int64\<close> shift vector with one
  entry per slice (the length of axis 1 of \<open>x\<close>) and no entry equal to \<open>- 2 ^ 63\<close>,
  \<^verbatim>\<open>performshift(x, s, +1)\<close> returns an array \<open>y\<close>, \<^verbatim>\<open>performshift(y, s, -1)\<close> returns an
  array, and that array is \<open>x\<close>.
\<close>

theorem performshift_roundtrip_int64:
  assumes "list_all (\<lambda>xa. length xa = length shift) x"
    and "list_all (\<lambda>k. k \<noteq> - (2 ^ 63)) shift"
  shows "bind_e (performshift x shift 1) (\<lambda>y. performshift y shift (- 1)) = Inr x"
proof -
  from performshift_entries[OF assms(1), of 1]
  obtain y where y: "performshift x shift 1 = Inr y" "length y = length x"
    "\<And>a. a < length x \<Longrightarrow> length (y ! a) = length shift"
    "\<And>a ss. a < length x \<Longrightarrow> ss < length shift \<Longrightarrow>
        y ! a ! ss = np_roll3 (sint (shift ! ss)) (get_slice ss x) ! a"
    by auto
  have ywf: "list_all (\<lambda>ya. length ya = length shift) y"
    using y(2,3) by (simp add: list_all_length)
  have neg: "sint (- 1 * shift ! ss) = - sint (shift ! ss)" if "ss < length shift" for ss
    using assms(2) that by (intro sint_negate_int64) (simp add: list_all_length)
  from performshift_entries[OF ywf, of "- 1"]
  obtain z where z: "performshift y shift (- 1) = Inr z" "length z = length x"
    "\<And>a. a < length x \<Longrightarrow> length (z ! a) = length shift"
    "\<And>a ss. a < length x \<Longrightarrow> ss < length shift \<Longrightarrow>
        z ! a ! ss = np_roll3 (sint (- 1 * shift ! ss)) (get_slice ss y) ! a"
    using y(2) by auto
  have unroll: "get_slice ss y = np_roll3 (sint (shift ! ss)) (get_slice ss x)" if "ss < length shift" for ss
    using y(2) y(4)[OF _ that]
    by (intro nth_equalityI) (simp_all add: get_slice_def length_np_roll3)
  have "z = x"
  proof (rule nth_equalityI)
    show "length z = length x" by (rule z(2))
  next
    fix a assume "a < length z"
    then have a: "a < length x" using z(2) by simp
    have xa: "length (x ! a) = length shift"
      using assms(1) a by (simp add: list_all_length)
    show "z ! a = x ! a"
    proof (rule nth_equalityI)
      show "length (z ! a) = length (x ! a)" using z(3)[OF a] xa by simp
    next
      fix ss assume "ss < length (z ! a)"
      then have ss: "ss < length shift" using z(3)[OF a] by simp
      have "z ! a ! ss = np_roll3 (- sint (shift ! ss)) (np_roll3 (sint (shift ! ss)) (get_slice ss x)) ! a"
        unfolding z(4)[OF a ss] neg[OF ss] unroll[OF ss] ..
      then have "z ! a ! ss = get_slice ss x ! a"
        by (simp only: np_roll3_inverse)
      then show "z ! a ! ss = x ! a ! ss" using a by (simp add: get_slice_def)
    qed
  qed
  then show ?thesis using y(1) z(1) by (simp add: bind_e_def)
qed

theorem performshift_roundtrip_int64_witness:
  "list_all (\<lambda>xa. length xa = length [1, - 3 :: int64])
     [[[[1, 2], [3, 4]], [[5, 6], [7, 8]]], [[[9, 10], [11, 12]], [[13, 14], [15, 16::complex]]]]
   \<and> list_all (\<lambda>k. k \<noteq> - (2 ^ 63)) [1, - 3 :: int64]
   \<and> bind_e (performshift [[[[1, 2], [3, 4]], [[5, 6], [7, 8]]], [[[9, 10], [11, 12]], [[13, 14], [15, 16]]]] [1, - 3] 1)
        (\<lambda>y. performshift y [1, - 3] (- 1))
     = Inr [[[[1, 2], [3, 4]], [[5, 6], [7, 8]]], [[[9, 10], [11, 12]], [[13, 14], [15, 16]]]]"
proof -
  have h1: "list_all (\<lambda>xa. length xa = length [1, - 3 :: int64])
     [[[[1, 2], [3, 4]], [[5, 6], [7, 8]]], [[[9, 10], [11, 12]], [[13, 14], [15, 16::complex]]]]"
    by simp
  have h2: "list_all (\<lambda>k. k \<noteq> - (2 ^ 63)) [1, - 3 :: int64]"
    by simp
  from performshift_roundtrip_int64[OF h1 h2] h1 h2 show ?thesis by (intro conjI)
qed

subsection \<open>SENSE operators\<close>

lemma rect2_lengths: "rect2 X Y a \<Longrightarrow> map length a = replicate X Y"
  by (auto simp: rect2_def list_all_iff intro: replicate_eqI)

lemma rect2_nth: "rect2 X Y a \<Longrightarrow> i < X \<Longrightarrow> length (a ! i) = Y"
  by (simp add: rect2_def list_all_length)

lemma rect2_ncols: "rect2 X Y a \<Longrightarrow> 0 < X \<Longrightarrow> ncols a = Y"
  by (cases a) (auto simp: rect2_def ncols_def)

lemma rect2I: "length a = X \<Longrightarrow> (\<And>i. i < X \<Longrightarrow> length (a ! i) = Y) \<Longrightarrow> rect2 X Y a"
  by (simp add: rect2_def list_all_length)

lemma rect3_lengths: "rect3 C X Y a \<Longrightarrow> map (map length) a = replicate C (replicate X Y)"
proof -
  assume a: "rect3 C X Y a"
  have "map (map length) a = replicate (length (map (map length) a)) (replicate X Y)"
    using a by (intro replicate_eqI) (auto simp: rect3_def list_all_iff rect2_lengths)
  then show ?thesis using a by (simp add: rect3_def)
qed

lemma rect3_nth: "rect3 C X Y a \<Longrightarrow> c < C \<Longrightarrow> rect2 X Y (a ! c)"
  by (simp add: rect3_def list_all_length)

lemma cnj_idft_kernel: "cnj (idft_kernel N k n) = dft_kernel N k n"
  by (simp add: idft_kernel_def dft_kernel_def cis_cnj)

lemma fft2c_nth:
  assumes "rect2 X Y a" "k < X" "l < Y"
  shows "fft2c a ! k ! l =
    (\<Sum>m<X. \<Sum>n<Y. a ! m ! n * dft_kernel X k m * dft_kernel Y l n) / of_real (sqrt (real (X * Y)))"
proof -
  have "length a = X" "ncols a = Y" using assms rect2_ncols[of X Y a] by (auto simp: rect2_def)
  then show ?thesis using assms(2,3) by (simp add: fft2c_def)
qed

lemma ifft2c_nth:
  assumes "rect2 X Y a" "m < X" "n < Y"
  shows "ifft2c a ! m ! n =
    (\<Sum>k<X. \<Sum>l<Y. a ! k ! l * idft_kernel X k m * idft_kernel Y l n) / of_real (sqrt (real (X * Y)))"
proof -
  have "length a = X" "ncols a = Y" using assms rect2_ncols[of X Y a] by (auto simp: rect2_def)
  then show ?thesis using assms(2,3) by (simp add: ifft2c_def)
qed

lemma rect2_fft2c: "rect2 X Y a \<Longrightarrow> rect2 X Y (fft2c a)"
  using rect2_ncols[of X Y a] by (cases "X = 0") (auto simp: rect2_def fft2c_def list_all_iff)

lemma rect2_ifft2c: "rect2 X Y a \<Longrightarrow> rect2 X Y (ifft2c a)"
  using rect2_ncols[of X Y a] by (cases "X = 0") (auto simp: rect2_def ifft2c_def list_all_iff)

lemma sum4_swap:
  fixes h :: "'a \<Rightarrow> 'b \<Rightarrow> 'c \<Rightarrow> 'd \<Rightarrow> 'e::comm_monoid_add"
  shows "(\<Sum>m\<in>A. \<Sum>n\<in>B. \<Sum>k\<in>C. \<Sum>l\<in>D. h m n k l) = (\<Sum>k\<in>C. \<Sum>l\<in>D. \<Sum>m\<in>A. \<Sum>n\<in>B. h m n k l)"
proof -
  have "(\<Sum>m\<in>A. \<Sum>n\<in>B. \<Sum>k\<in>C. \<Sum>l\<in>D. h m n k l) = (\<Sum>m\<in>A. \<Sum>k\<in>C. \<Sum>n\<in>B. \<Sum>l\<in>D. h m n k l)"
    by (intro sum.cong refl sum.swap)
  also have "\<dots> = (\<Sum>k\<in>C. \<Sum>m\<in>A. \<Sum>n\<in>B. \<Sum>l\<in>D. h m n k l)"
    by (rule sum.swap)
  also have "\<dots> = (\<Sum>k\<in>C. \<Sum>m\<in>A. \<Sum>l\<in>D. \<Sum>n\<in>B. h m n k l)"
    by (intro sum.cong refl sum.swap)
  also have "\<dots> = (\<Sum>k\<in>C. \<Sum>l\<in>D. \<Sum>m\<in>A. \<Sum>n\<in>B. h m n k l)"
    by (intro sum.cong refl sum.swap)
  finally show ?thesis .
qed

lemma fft2c_adjoint:
  assumes U: "rect2 X Y U" and V: "rect2 X Y V"
  shows "vdot2 X Y (ifft2c U) V = vdot2 X Y U (fft2c V)"
proof -
  let ?s = "of_real (sqrt (real (X * Y))) :: complex"
  let ?h = "\<lambda>m n k l. cnj (U ! k ! l) * dft_kernel X k m * dft_kernel Y l n * V ! m ! n / ?s"
  have L: "vdot2 X Y (ifft2c U) V = (\<Sum>m<X. \<Sum>n<Y. \<Sum>k<X. \<Sum>l<Y. ?h m n k l)"
    unfolding vdot2_def
    by (intro sum.cong refl)
      (simp add: ifft2c_nth[OF U] cnj_idft_kernel sum_distrib_right sum_divide_distrib)
  have R: "vdot2 X Y U (fft2c V) = (\<Sum>k<X. \<Sum>l<Y. \<Sum>m<X. \<Sum>n<Y. ?h m n k l)"
    unfolding vdot2_def
    by (intro sum.cong refl)
      (simp add: fft2c_nth[OF V] sum_distrib_left sum_divide_distrib mult_ac)
  show ?thesis unfolding L R by (rule sum4_swap)
qed

lemma vdot2_cnj: "cnj (vdot2 X Y a b) = vdot2 X Y b a"
  by (simp add: vdot2_def mult.commute)

lemma vdot_nth: "length r = length s \<Longrightarrow> vdot r s = (\<Sum>j<length r. cnj (r ! j) * s ! j)"
proof (induction r s rule: list_induct2)
  case Nil
  then show ?case by (simp add: vdot_def)
next
  case (Cons a r b s)
  then show ?case by (simp add: vdot_def sum.lessThan_Suc_shift del: sum.lessThan_Suc)
qed

lemma vdot_append: "length a = length b \<Longrightarrow> vdot (a @ as) (b @ bs) = vdot a b + vdot as bs"
  by (simp add: vdot_def)

lemma vdot_concat:
  "rect2 X Y A \<Longrightarrow> rect2 X Y B \<Longrightarrow> vdot (concat A) (concat B) = vdot2 X Y A B"
proof (induction A arbitrary: X B)
  case Nil
  then show ?case by (simp add: rect2_def vdot_def vdot2_def)
next
  case (Cons r A)
  then obtain s B' where B: "B = s # B'" by (cases B) (auto simp: rect2_def)
  obtain X' where X: "X = Suc X'" using Cons.prems(1) by (cases X) (auto simp: rect2_def)
  have rs: "length r = Y" "length s = Y" and A': "rect2 X' Y A" and B': "rect2 X' Y B'"
    using Cons.prems B X by (auto simp: rect2_def)
  have "vdot (concat (r # A)) (concat B) = vdot r s + vdot2 X' Y A B'"
    using rs Cons.IH[OF A' B'] by (simp add: B vdot_append)
  also have "vdot r s = (\<Sum>j<Y. cnj (r ! j) * s ! j)" using rs vdot_nth[of r s] by simp
  finally show ?case by (simp add: X B vdot2_def sum.lessThan_Suc_shift del: sum.lessThan_Suc)
qed

lemma mul2_nth:
  "rect2 X Y a \<Longrightarrow> rect2 X Y b \<Longrightarrow> i < X \<Longrightarrow> j < Y \<Longrightarrow> mul2 a b ! i ! j = a ! i ! j * b ! i ! j"
  by (simp add: mul2_def rect2_def list_all_length)

lemma rect2_mul2: "rect2 X Y a \<Longrightarrow> rect2 X Y b \<Longrightarrow> rect2 X Y (mul2 a b)"
  by (simp add: mul2_def rect2_def list_all_length)

lemma senseForward_rect:
  assumes coils: "rect3 C X Y coils" and ms: "rect3 C X Y ms" and x: "rect2 X Y x"
  shows "\<exists>K. senseForward x coils (MaskArray ms) = Inr K \<and> rect3 C X Y K \<and>
           (\<forall>c<C. \<forall>i<X. \<forall>j<Y.
              K ! c ! i ! j = of_real (ms ! c ! i ! j) * fft2c (mul2 (coils ! c) x) ! i ! j)"
proof -
  let ?F = "map fft2c (map (\<lambda>mc. mul2 mc x) coils)"
  let ?K = "map2 (map2 (map2 (\<lambda>m z. of_real m * z))) ms ?F"
  have lenc: "length coils = C" and lenm: "length ms = C"
    using coils ms by (simp_all add: rect3_def)
  have F: "rect2 X Y (?F ! c)" if "c < C" for c
    using that lenc rect3_nth[OF coils that] x by (simp add: rect2_fft2c rect2_mul2)
  have F3: "rect3 C X Y ?F"
    using F lenc by (simp add: rect3_def list_all_length)
  have c1: "list_all (\<lambda>mc. map length mc = map length x) coils"
    using coils rect2_lengths[OF x] by (auto simp: rect3_def list_all_iff rect2_lengths)
  have c2: "map (map length) ms = map (map length) ?F"
    using rect3_lengths[OF ms] rect3_lengths[OF F3] by simp
  have run: "senseForward x coils (MaskArray ms) = Inr ?K"
    using c1 c2 by (simp add: senseForward_def apply_mask_def)
  have Kn: "?K ! c ! i ! j = of_real (ms ! c ! i ! j) * fft2c (mul2 (coils ! c) x) ! i ! j"
    if "c < C" "i < X" "j < Y" for c i j
  proof -
    have "length (ms ! c) = X" "length (?F ! c) = X" "length (ms ! c ! i) = Y" "length (?F ! c ! i) = Y"
      using rect3_nth[OF ms that(1)] F[OF that(1)] that by (auto simp: rect2_def list_all_length)
    then show ?thesis using that lenc lenm by simp
  qed
  have K3: "rect3 C X Y ?K"
    unfolding rect3_def rect2_def list_all_length
  proof (intro conjI allI impI)
    show "length ?K = C" using lenc lenm by simp
  next
    fix c assume "c < length ?K"
    then have c: "c < C" using lenc lenm by simp
    show "length (?K ! c) = X"
      using rect3_nth[OF ms c] F[OF c] c lenc lenm by (simp add: rect2_def)
  next
    fix c i assume "c < length ?K" "i < length (?K ! c)"
    then have c: "c < C" using lenc lenm by simp
    have lk: "length (?K ! c) = X"
      using rect3_nth[OF ms c] F[OF c] c lenc lenm by (simp add: rect2_def)
    then have i: "i < X" using \<open>i < length (?K ! c)\<close> by simp
    have "length (ms ! c) = X" "length (?F ! c) = X" "length (ms ! c ! i) = Y" "length (?F ! c ! i) = Y"
      using rect3_nth[OF ms c] F[OF c] i by (auto simp: rect2_def list_all_length)
    then show "length (?K ! c ! i) = Y" using c i lenc lenm by simp
  qed
  show ?thesis using run K3 Kn by blast
qed

lemma senseAdjoint_rect:
  assumes coils: "rect3 C X Y coils" and K: "rect3 C X Y K" and C: "0 < C"
  shows "\<exists>img. senseAdjoint K coils m = Inr img \<and> rect2 X Y img \<and>
           (\<forall>i<X. \<forall>j<Y. img ! i ! j = (\<Sum>c<C. cnj (coils ! c ! i ! j) * ifft2c (K ! c) ! i ! j))"
proof -
  let ?P = "map2 mul2 (map (map (map cnj)) coils) (map ifft2c K)"
  let ?img = "sum_axis0 ?P"
  have lenc: "length coils = C" and lenk: "length K = C"
    using coils K by (simp_all add: rect3_def)
  have IK: "rect3 C X Y (map ifft2c K)"
    using K by (auto simp: rect3_def list_all_iff rect2_ifft2c)
  have cond: "map (map length) coils = map (map length) (map ifft2c K)"
    using rect3_lengths[OF coils] rect3_lengths[OF IK] by simp
  have run: "senseAdjoint K coils m = Inr ?img"
    using cond by (simp add: senseAdjoint_def)
  have cc: "rect2 X Y (map (map cnj) (coils ! c))" if "c < C" for c
    using rect3_nth[OF coils that] by (simp add: rect2_def list_all_length)
  have Pc: "?P ! c = mul2 (map (map cnj) (coils ! c)) (ifft2c (K ! c))" if "c < C" for c
    using that lenc lenk by simp
  have Prect: "rect2 X Y (?P ! c)" if "c < C" for c
    unfolding Pc[OF that]
    using cc[OF that] rect3_nth[OF K that] by (simp add: rect2_mul2 rect2_ifft2c)
  have Pn: "?P ! c ! i ! j = cnj (coils ! c ! i ! j) * ifft2c (K ! c) ! i ! j"
    if "c < C" "i < X" "j < Y" for c i j
  proof -
    have "length (coils ! c) = X" "length (coils ! c ! i) = Y"
      using rect3_nth[OF coils that(1)] that by (auto simp: rect2_def list_all_length)
    then show ?thesis
      unfolding Pc[OF that(1)]
      using mul2_nth[OF cc[OF that(1)] rect2_ifft2c[OF rect3_nth[OF K that(1)]] that(2,3)] that
      by simp
  qed
  have lenP: "length ?P = C" using lenc lenk by simp
  obtain p0 ps where P: "?P = p0 # ps" using lenP C by (cases ?P) auto
  have p0: "rect2 X Y p0" using Prect[OF C] P by simp
  have img_eq: "?img = map (\<lambda>i. map (\<lambda>j. \<Sum>c<C. ?P ! c ! i ! j) [0..<ncols p0]) [0..<length p0]"
    unfolding sum_axis0_def using P lenP by simp
  have lp0: "length p0 = X" using p0 by (simp add: rect2_def)
  have img_rect: "rect2 X Y ?img"
    unfolding img_eq using lp0 rect2_ncols[OF p0] by (cases "X = 0") (auto simp: rect2_def list_all_iff)
  have img_nth: "?img ! i ! j = (\<Sum>c<C. cnj (coils ! c ! i ! j) * ifft2c (K ! c) ! i ! j)"
    if "i < X" "j < Y" for i j
  proof -
    have "ncols p0 = Y" using rect2_ncols[OF p0] that by simp
    then have "?img ! i ! j = (\<Sum>c<C. ?P ! c ! i ! j)"
      unfolding img_eq using that lp0 by simp
    also have "\<dots> = (\<Sum>c<C. cnj (coils ! c ! i ! j) * ifft2c (K ! c) ! i ! j)"
      by (intro sum.cong refl) (simp add: Pn that)
    finally show ?thesis .
  qed
  show ?thesis using run img_rect img_nth by blast
qed

lemma senseAdjoint_pairing:
  assumes coils: "rect3 C X Y coils" and K: "rect3 C X Y K" and y: "rect2 X Y y"
    and img: "rect2 X Y img"
      "\<And>i j. i < X \<Longrightarrow> j < Y \<Longrightarrow> img ! i ! j = (\<Sum>c<C. cnj (coils ! c ! i ! j) * ifft2c (K ! c) ! i ! j)"
  shows "vdot2 X Y img y = (\<Sum>c<C. vdot2 X Y (K ! c) (fft2c (mul2 (coils ! c) y)))"
proof -
  have "vdot2 X Y img y = (\<Sum>i<X. \<Sum>j<Y. \<Sum>c<C. cnj (ifft2c (K ! c) ! i ! j) * mul2 (coils ! c) y ! i ! j)"
    unfolding vdot2_def
    by (intro sum.cong refl)
      (simp add: img(2) sum_distrib_right sum_distrib_left mul2_nth[OF rect3_nth[OF coils] y] mult_ac)
  also have "\<dots> = (\<Sum>c<C. \<Sum>i<X. \<Sum>j<Y. cnj (ifft2c (K ! c) ! i ! j) * mul2 (coils ! c) y ! i ! j)"
  proof -
    have "(\<Sum>i<X. \<Sum>j<Y. \<Sum>c<C. cnj (ifft2c (K ! c) ! i ! j) * mul2 (coils ! c) y ! i ! j)
        = (\<Sum>i<X. \<Sum>c<C. \<Sum>j<Y. cnj (ifft2c (K ! c) ! i ! j) * mul2 (coils ! c) y ! i ! j)"
      by (intro sum.cong refl sum.swap)
    also have "\<dots> = (\<Sum>c<C. \<Sum>i<X. \<Sum>j<Y. cnj (ifft2c (K ! c) ! i ! j) * mul2 (coils ! c) y ! i ! j)"
      by (rule sum.swap)
    finally show ?thesis .
  qed
  also have "\<dots> = (\<Sum>c<C. vdot2 X Y (ifft2c (K ! c)) (mul2 (coils ! c) y))"
    by (simp add: vdot2_def)
  also have "\<dots> = (\<Sum>c<C. vdot2 X Y (K ! c) (fft2c (mul2 (coils ! c) y)))"
    by (intro sum.cong refl fft2c_adjoint)
      (simp_all add: rect3_nth[OF K] rect2_mul2[OF rect3_nth[OF coils] y])
  finally show ?thesis .
qed

lemma reshape2_rect:
  assumes "length x = X * Y"
  shows "\<exists>x2. reshape2 X Y x = Inr x2 \<and> rect2 X Y x2 \<and> concat x2 = x"
proof -
  have "sum_list (replicate X Y) = length x" using assms by (simp add: sum_list_replicate)
  from chop_exact[OF this]
  have "map length (chop (replicate X Y) x) = replicate X Y" "concat (chop (replicate X Y) x) = x"
    by auto
  moreover from this(1) have "rect2 X Y (chop (replicate X Y) x)"
    unfolding rect2_def list_all_iff
    by (metis in_set_replicate length_map length_replicate set_map imageI)
  ultimately show ?thesis using assms by (simp add: reshape2_def)
qed

lemma normal_pairing:
  assumes coils: "rect3 C (M * numslices) N coils" and C: "0 < C"
    and ms: "rect3 C (M * numslices) N ms"
    and x: "length x = M * numslices * N" and y: "length y = M * numslices * N"
  shows "\<exists>nx x2 y2. normal M numslices N coils (MaskArray ms) x = Inr nx
           \<and> reshape2 (M * numslices) N x = Inr x2 \<and> reshape2 (M * numslices) N y = Inr y2
           \<and> length nx = length y
           \<and> vdot nx y = (\<Sum>c<C. \<Sum>i<M * numslices. \<Sum>j<N.
                 of_real (ms ! c ! i ! j) * cnj (fft2c (mul2 (coils ! c) x2) ! i ! j)
                   * fft2c (mul2 (coils ! c) y2) ! i ! j)"
proof -
  let ?X = "M * numslices"
  from reshape2_rect[OF x] obtain x2 where x2: "reshape2 ?X N x = Inr x2" "rect2 ?X N x2" "concat x2 = x"
    by blast
  from reshape2_rect[OF y] obtain y2 where y2: "reshape2 ?X N y = Inr y2" "rect2 ?X N y2" "concat y2 = y"
    by blast
  from senseForward_rect[OF coils ms x2(2)] obtain K where
    K: "senseForward x2 coils (MaskArray ms) = Inr K" "rect3 C ?X N K"
      "\<And>c i j. c < C \<Longrightarrow> i < ?X \<Longrightarrow> j < N \<Longrightarrow>
         K ! c ! i ! j = of_real (ms ! c ! i ! j) * fft2c (mul2 (coils ! c) x2) ! i ! j"
    by blast
  from senseAdjoint_rect[OF coils K(2) C, of "MaskArray ms"] obtain img where
    img: "senseAdjoint K coils (MaskArray ms) = Inr img" "rect2 ?X N img"
      "\<And>i j. i < ?X \<Longrightarrow> j < N \<Longrightarrow>
         img ! i ! j = (\<Sum>c<C. cnj (coils ! c ! i ! j) * ifft2c (K ! c) ! i ! j)"
    by blast
  have run: "normal M numslices N coils (MaskArray ms) x = Inr (concat img)"
    by (simp add: normal_def bind_e_def x2(1) K(1) img(1))
  have len: "length (concat img) = length y"
    using rect2_lengths[OF img(2)] y by (simp add: length_concat sum_list_replicate)
  have "vdot (concat img) y = vdot2 ?X N img y2"
    using vdot_concat[OF img(2) y2(2)] y2(3) by simp
  also have "\<dots> = (\<Sum>c<C. vdot2 ?X N (K ! c) (fft2c (mul2 (coils ! c) y2)))"
    by (rule senseAdjoint_pairing[OF coils K(2) y2(2) img(2,3)])
  also have "\<dots> = (\<Sum>c<C. \<Sum>i<?X. \<Sum>j<N.
                 of_real (ms ! c ! i ! j) * cnj (fft2c (mul2 (coils ! c) x2) ! i ! j)
                   * fft2c (mul2 (coils ! c) y2) ! i ! j)"
    unfolding vdot2_def by (intro sum.cong refl) (simp add: K(3))
  finally show ?thesis using run x2(1) y2(1) len by blast
qed

lemma vdot_cnj: "length a = length b \<Longrightarrow> cnj (vdot a b) = vdot b a"
  by (simp add: vdot_nth mult.commute)

text \<open>
  C9.  For every 0/1-valued mask of the k-space's shape, coil maps with at least one
  channel and flat images \<open>x\<close>, \<open>y\<close> of \<open>M * numslices * N\<close> entries, the normal operator
  returns on both and \<open>\<langle>normal(x), y\<rangle> = \<langle>x, normal(y)\<rangle>\<close>.  The proof uses of the mask
  only that it is real: \<open>F\<^sup>H M F\<close> is Hermitian for every real diagonal \<open>M\<close>.
\<close>

theorem normal_self_adjoint:
  assumes coils: "rect3 C (M * numslices) N coils" and C: "0 < C"
    and ms: "rect3 C (M * numslices) N ms"
    and m01: "list_all (list_all (list_all (\<lambda>v. v = 0 \<or> v = 1))) ms"
    and x: "length x = M * numslices * N" and y: "length y = M * numslices * N"
  shows "\<exists>nx ny. normal M numslices N coils (MaskArray ms) x = Inr nx
           \<and> normal M numslices N coils (MaskArray ms) y = Inr ny
           \<and> vdot nx y = vdot x ny"
proof -
  from normal_pairing[OF coils C ms x y] obtain nx x2 y2 where
    nx: "normal M numslices N coils (MaskArray ms) x = Inr nx"
      "reshape2 (M * numslices) N x = Inr x2" "reshape2 (M * numslices) N y = Inr y2"
      "vdot nx y = (\<Sum>c<C. \<Sum>i<M * numslices. \<Sum>j<N.
                 of_real (ms ! c ! i ! j) * cnj (fft2c (mul2 (coils ! c) x2) ! i ! j)
                   * fft2c (mul2 (coils ! c) y2) ! i ! j)"
    by blast
  from normal_pairing[OF coils C ms y x] nx(2,3) obtain ny where
    ny: "normal M numslices N coils (MaskArray ms) y = Inr ny" "length ny = length x"
      "vdot ny x = (\<Sum>c<C. \<Sum>i<M * numslices. \<Sum>j<N.
                 of_real (ms ! c ! i ! j) * cnj (fft2c (mul2 (coils ! c) y2) ! i ! j)
                   * fft2c (mul2 (coils ! c) x2) ! i ! j)"
    by auto
  have "vdot x ny = cnj (vdot ny x)" using vdot_cnj[OF ny(2)] by simp
  also have "\<dots> = vdot nx y"
    unfolding ny(3) nx(4) by (simp add: mult_ac)
  finally show ?thesis using nx(1) ny(1) by auto
qed

theorem normal_self_adjoint_witness:
  "rect3 1 (1 * 2) 1 [[[1], [\<i>]]] \<and> (0::nat) < 1
   \<and> rect3 1 (1 * 2) 1 [[[1], [0::real]]]
   \<and> list_all (list_all (list_all (\<lambda>v. v = 0 \<or> v = 1))) [[[1], [0::real]]]
   \<and> length [2, 3 :: complex] = 1 * 2 * 1 \<and> length [\<i>, 5 :: complex] = 1 * 2 * 1
   \<and> (\<exists>nx ny. normal 1 2 1 [[[1], [\<i>]]] (MaskArray [[[1], [0]]]) [2, 3] = Inr nx
          \<and> normal 1 2 1 [[[1], [\<i>]]] (MaskArray [[[1], [0]]]) [\<i>, 5] = Inr ny
          \<and> vdot nx [\<i>, 5] = vdot [2, 3] ny)"
proof -
  have h1: "rect3 1 (1 * 2) 1 [[[1], [\<i>]]]" by (simp add: rect3_def rect2_def)
  have h2: "(0::nat) < 1" by simp
  have h3: "rect3 1 (1 * 2) 1 [[[1], [0::real]]]" by (simp add: rect3_def rect2_def)
  have h4: "list_all (list_all (list_all (\<lambda>v. v = 0 \<or> v = 1))) [[[1], [0::real]]]" by simp
  have h5: "length [2, 3 :: complex] = 1 * 2 * 1" by simp
  have h6: "length [\<i>, 5 :: complex] = 1 * 2 * 1" by simp
  from normal_self_adjoint[OF h1 h2 h3 h4 h5 h6] h1 h2 h3 h4 h5 h6
  show ?thesis by (intro conjI)
qed

text \<open>
  C8.  \<^verbatim>\<open>senseAdjoint\<close> never reads its \<^verbatim>\<open>mask\<close> argument: any two masks give the
  same result, an array or an error.
\<close>

theorem senseAdjoint_ignores_mask: "senseAdjoint x maps m1 = senseAdjoint x maps m2"
  by (simp add: senseAdjoint_def)

lemma dft_kernel_small:
  "dft_kernel (Suc (Suc 0)) 0 0 = - 1" "dft_kernel (Suc (Suc 0)) 0 (Suc 0) = 1"
  "dft_kernel (Suc (Suc 0)) (Suc 0) 0 = 1" "dft_kernel (Suc (Suc 0)) (Suc 0) (Suc 0) = 1"
  "idft_kernel (Suc (Suc 0)) 0 0 = - 1" "idft_kernel (Suc (Suc 0)) 0 (Suc 0) = 1"
  "idft_kernel (Suc (Suc 0)) (Suc 0) 0 = 1" "idft_kernel (Suc (Suc 0)) (Suc 0) (Suc 0) = 1"
  "dft_kernel (Suc 0) 0 0 = 1" "idft_kernel (Suc 0) 0 0 = 1"
  by (simp_all add: dft_kernel_def idft_kernel_def complex_eq_iff)

lemma upt_2: "[0..<2] = [0, 1]"
  by (simp add: upt_rec)

lemma lessThan_2: "{..<2::nat} = {0, 1}"
  by auto

text \<open>
  C3.  \<^verbatim>\<open>senseForward\<close> multiplies by the mask and \<^verbatim>\<open>senseAdjoint\<close> does not
  (\<^verbatim>\<open>senseWaveAdjoint\<close> does: \<^verbatim>\<open>xp.conj(mask) * x\<close>), so the pair is adjoint only on
  k-spaces supported on the mask.  One channel, a 1 by 2 image \<open>x = [1, 0]\<close>, coil map 1,
  the mask \<open>[1, 0]\<close> that \<^verbatim>\<open>mask[:,::numslices,::Ry] = 1\<close> gives for \<^verbatim>\<open>Ry = 2\<close>, and the
  k-space \<open>y = [0, 1]\<close>, which is not zero where the mask is: the forward k-space is
  \<open>[-1/\<surd>2, 0]\<close> and \<open>\<langle>senseForward(x), y\<rangle> = 0\<close>; the adjoint image is \<open>[1/\<surd>2, 1/\<surd>2]\<close> and
  \<open>\<langle>x, senseAdjoint(y)\<rangle> = 1/\<surd>2\<close>.
\<close>

theorem sense_adjoint_identity_fails:
  "senseForward [[1, 0]] [[[1, 1]]] (MaskArray [[[1, 0]]])
     = Inr [[[- 1 / of_real (sqrt 2), 0]]]
   \<and> senseAdjoint [[[0, 1]]] [[[1, 1]]] (MaskArray [[[1, 0]]])
     = Inr [[1 / of_real (sqrt 2), 1 / of_real (sqrt 2)]]
   \<and> vdot (ravel3 [[[- 1 / of_real (sqrt 2), 0]]]) (ravel3 [[[0, 1]]]) = 0
   \<and> vdot (concat [[1, 0]]) (concat [[1 / of_real (sqrt 2), 1 / of_real (sqrt 2)]])
     = 1 / of_real (sqrt 2)"
  by (simp add: senseForward_def senseAdjoint_def apply_mask_def sum_axis0_def fft2c_def
      ifft2c_def ncols_def mul2_def dft_kernel_small upt_2 lessThan_2 vdot_def ravel3_def)

subsection \<open>Conjugate gradient\<close>

lemma cg_loop_funpow:
  "nondegenerate A n st \<Longrightarrow> cg_loop A n st = Some ((cg_update A ^^ n) st)"
  by (induction n arbitrary: st) (simp_all add: funpow_swap1)

text \<open>
  C4.  \<^verbatim>\<open>conjgrad\<close> with zero iterations returns \<open>x0\<close>; and whenever the denominator
  \<open>p\<cdot>A(p)\<close> is not zero at any of the \<open>n\<close> steps, \<^verbatim>\<open>conjgrad(A, b, x0, n)\<close> returns the
  \<open>x\<close> of the state reached from \<open>(x0, r0, p0)\<close> by exactly \<open>n\<close> updates, for every operator
  \<open>A\<close> (linear or not), right-hand side and first guess.
\<close>

theorem conjgrad_exact_steps:
  "conjgrad A b x0 0 = Some x0
   \<and> (nondegenerate A n (cg_init A b x0)
        \<longrightarrow> conjgrad A b x0 n = Some (cg_x ((cg_update A ^^ n) (cg_init A b x0))))"
  by (simp add: conjgrad_def cg_loop_funpow) (simp add: cg_init_def Let_def)

theorem conjgrad_exact_steps_witness:
  "nondegenerate (map ((*) 2)) 1 (cg_init (map ((*) 2)) [4] [0])
   \<and> conjgrad (map ((*) 2)) [4] [0] 1
        = Some (cg_x ((cg_update (map ((*) 2)) ^^ 1) (cg_init (map ((*) 2)) [4] [0])))
   \<and> conjgrad (map ((*) 2)) [4] [0] 1 = Some [2]
   \<and> conjgrad (map ((*) 2)) [4] [0] 0 = Some [0]"
proof -
  have h: "nondegenerate (map ((*) 2)) 1 (cg_init (map ((*) 2)) [4] [0])"
    by (simp add: cg_init_def axpy_def vdot_def Let_def)
  have v: "cg_x ((cg_update (map ((*) 2)) ^^ 1) (cg_init (map ((*) 2)) [4] [0])) = [2]"
    by (simp add: cg_init_def cg_update_def axpy_def vdot_def Let_def)
  from conjgrad_exact_steps[of "map ((*) 2)" "[4]" "[0]" 1] h v
  show ?thesis by simp
qed

subsection \<open>SPARK correction\<close>

lemma add2_rect:
  assumes "rect2 X Y a" "rect2 X Y b"
  shows "add2 a b = Inr (map2 (map2 (+)) a b)"
    and "rect2 X Y (map2 (map2 (+)) a b)"
    and "\<And>i j. i < X \<Longrightarrow> j < Y \<Longrightarrow> map2 (map2 (+)) a b ! i ! j = a ! i ! j + b ! i ! j"
  using assms rect2_lengths[OF assms(1)] rect2_lengths[OF assms(2)]
  by (simp_all add: add2_def rect2_def list_all_length)

text \<open>
  C7.  When the two networks return arrays whose entry \<^verbatim>\<open>[0,0,:,:]\<close> has the shape of
  \<^verbatim>\<open>kspaceToCorrect\<close> and the scale factors are not zero, \<^verbatim>\<open>applySparkCorrection\<close>
  returns, entry by entry, (real-model output) / \<^verbatim>\<open>chanScaleFactorReal\<close> +
  i (imag-model output) / \<^verbatim>\<open>chanScaleFactorImag\<close> + \<^verbatim>\<open>kspaceToCorrect\<close>, both networks
  being run on the same input; and where the outputs are the scaled targets
  \<open>sr * tr\<close> and \<open>si * ti\<close>, the recovered residual is \<open>tr + i ti\<close>.
\<close>

theorem applySparkCorrection_descales:
  assumes outr: "real_model [kspaceGrappaSplit] = (cr # crs0) # crs"
    and outi: "imag_model [kspaceGrappaSplit] = (ci # cis0) # cis1"
    and shapes: "rect2 X Y cr" "rect2 X Y ci" "rect2 X Y kspaceToCorrect"
    and nz: "sr \<noteq> 0" "si \<noteq> 0"
  shows "\<exists>c. applySparkCorrection kspaceToCorrect kspaceGrappaSplit real_model imag_model sr si = Inr c
           \<and> rect2 X Y c
           \<and> (\<forall>i<X. \<forall>j<Y.
                 c ! i ! j = of_real (cr ! i ! j / sr) + \<i> * of_real (ci ! i ! j / si)
                               + kspaceToCorrect ! i ! j
               \<and> (\<forall>tr ti. cr ! i ! j = sr * tr \<and> ci ! i ! j = si * ti
                      \<longrightarrow> c ! i ! j - kspaceToCorrect ! i ! j = Complex tr ti))"
proof -
  let ?a = "map (map (\<lambda>v. complex_of_real (v / sr))) cr"
  let ?b = "map (map (\<lambda>v. \<i> * complex_of_real v / complex_of_real si)) ci"
  let ?s = "map2 (map2 (+)) ?a ?b"
  let ?c = "map2 (map2 (+)) ?s kspaceToCorrect"
  have a: "rect2 X Y ?a" and b: "rect2 X Y ?b"
    using shapes(1,2) by (simp_all add: rect2_def list_all_length)
  note s = add2_rect[OF a b]
  note c = add2_rect[OF s(2) shapes(3)]
  have run: "applySparkCorrection kspaceToCorrect kspaceGrappaSplit real_model imag_model sr si = Inr ?c"
    unfolding applySparkCorrection_def Let_def outr outi
    by (simp add: bind_e_def py_index_def s(1) c(1) del: of_real_divide)
  have val: "?c ! i ! j = of_real (cr ! i ! j / sr) + \<i> * of_real (ci ! i ! j / si)
                 + kspaceToCorrect ! i ! j" if "i < X" "j < Y" for i j
  proof -
    have "length cr = X" "length ci = X" "length (cr ! i) = Y" "length (ci ! i) = Y"
      using shapes(1,2) that by (simp_all add: rect2_def list_all_length)
    then show ?thesis using c(3)[OF that] s(3)[OF that] that by simp
  qed
  have inv: "?c ! i ! j - kspaceToCorrect ! i ! j = Complex tr ti"
    if "i < X" "j < Y" "cr ! i ! j = sr * tr" "ci ! i ! j = si * ti" for i j tr ti
    using val[OF that(1,2)] that(3,4) nz by (simp add: complex_eq_iff)
  show ?thesis using run c(2) val inv by blast
qed

theorem applySparkCorrection_descales_witness:
  "map (map (map (map ((*) 6)))) [[[[1, 0 :: real]]]] = ([[6, 0]] # []) # []
   \<and> map (map (map (map ((*) 8)))) [[[[1, 0 :: real]]]] = ([[8, 0]] # []) # []
   \<and> rect2 1 2 [[6, 0 :: real]] \<and> rect2 1 2 [[8, 0 :: real]] \<and> rect2 1 2 [[1, \<i>]]
   \<and> (2 :: real) \<noteq> 0 \<and> (4 :: real) \<noteq> 0
   \<and> (\<exists>c. applySparkCorrection [[1, \<i>]] [[[1, 0]]]
             (map (map (map (map ((*) 6))))) (map (map (map (map ((*) 8))))) 2 4 = Inr c
           \<and> rect2 1 2 c
           \<and> (\<forall>i<1. \<forall>j<2.
                 c ! i ! j = of_real ([[6, 0]] ! i ! j / 2) + \<i> * of_real ([[8, 0]] ! i ! j / 4)
                               + [[1, \<i>]] ! i ! j
               \<and> (\<forall>tr ti. [[6, 0]] ! i ! j = 2 * tr \<and> [[8, 0]] ! i ! j = 4 * ti
                      \<longrightarrow> c ! i ! j - [[1, \<i>]] ! i ! j = Complex tr ti)))
   \<and> applySparkCorrection [[1, \<i>]] [[[1, 0]]]
         (map (map (map (map ((*) 6))))) (map (map (map (map ((*) 8))))) 2 4
       = Inr [[Complex 4 2, \<i>]]"
proof -
  have h1: "map (map (map (map ((*) 6)))) [[[[1, 0 :: real]]]] = ([[6, 0]] # []) # []" by simp
  have h2: "map (map (map (map ((*) 8)))) [[[[1, 0 :: real]]]] = ([[8, 0]] # []) # []" by simp
  have h3: "rect2 1 2 [[6, 0 :: real]]" by (simp add: rect2_def)
  have h4: "rect2 1 2 [[8, 0 :: real]]" by (simp add: rect2_def)
  have h5: "rect2 1 2 [[1, \<i>]]" by (simp add: rect2_def)
  have h6: "(2 :: real) \<noteq> 0" by simp
  have h7: "(4 :: real) \<noteq> 0" by simp
  have v: "applySparkCorrection [[1, \<i>]] [[[1, 0]]]
         (map (map (map (map ((*) 6))))) (map (map (map (map ((*) 8))))) 2 4
       = Inr [[Complex 4 2, \<i>]]"
    by (simp add: applySparkCorrection_def bind_e_def py_index_def add2_def complex_eq_iff)
  from applySparkCorrection_descales[of "map (map (map (map ((*) 6))))" "[[[1, 0]]]" "[[6, 0]]"
      "[]" "[]" "map (map (map (map ((*) 8))))" "[[8, 0]]" "[]" "[]" 1 2 "[[1, \<i>]]" 2 4,
      OF h1 h2 h3 h4 h5 h6 h7] h1 h2 h3 h4 h5 h6 h7 v
  show ?thesis by (intro conjI)
qed

subsection \<open>\<^verbatim>\<open>reformattingKspaceForSpark\<close>: the caller's arrays\<close>

lemma imul_e_frame:
  "n \<le> base v \<Longrightarrow> take n (imul_e st v e s) = take n st \<and> length (imul_e st v e s) = length st"
  by (cases v) (simp_all add: Let_def)

lemma imul_ec_frame:
  "n \<le> base v \<Longrightarrow> take n (imul_ec st v e c s) = take n st \<and> length (imul_ec st v e c s) = length st"
  by (cases v) (simp_all add: Let_def)

lemma set_entry_frame:
  "n \<le> a \<Longrightarrow> take n (set_entry st a e c x) = take n st \<and> length (set_entry st a e c x) = length st"
  by (simp add: set_entry_def Let_def)

lemma chan_step_frame:
  assumes "n \<le> base dr" "n \<le> base di" "n \<le> tr" "n \<le> ti"
    and "chan_step flag dr di tr ti e c st = Inr st1"
  shows "take n st1 = take n st \<and> length st1 = length st"
proof -
  from assms(5) obtain sr si where
    "st1 = imul_ec (imul_ec (set_entry (set_entry st tr e c sr) ti e c si) dr e c sr) di e c si"
    by (auto simp: chan_step_def split: sum.splits if_splits)
  then show ?thesis
    using assms(1-4) by (simp add: imul_ec_frame set_entry_frame)
qed

lemma loop_c_frame:
  assumes "n \<le> base dr" "n \<le> base di" "n \<le> tr" "n \<le> ti"
  shows "take n (snd (loop_c flag dr di tr ti e cs st)) = take n st
       \<and> length (snd (loop_c flag dr di tr ti e cs st)) = length st"
proof (induction cs arbitrary: st)
  case Nil
  then show ?case by simp
next
  case (Cons c cs)
  show ?case
  proof (cases "chan_step flag dr di tr ti e c st")
    case (Inl err)
    then show ?thesis by simp
  next
    case (Inr st1)
    with chan_step_frame[OF assms Inr] Cons.IH[of st1] show ?thesis by simp
  qed
qed

lemma input_step_frame:
  assumes "n \<le> base split" "input_step flag split e st = Inr st1"
  shows "take n st1 = take n st \<and> length st1 = length st"
  using assms by (auto simp: input_step_def bind_e_def imul_e_frame split: if_splits sum.splits)

lemma loop_e_frame:
  assumes "n \<le> base split" "n \<le> base dr" "n \<le> base di" "n \<le> tr" "n \<le> ti"
  shows "take n (snd (loop_e flag split dr di tr ti C es st)) = take n st
       \<and> length (snd (loop_e flag split dr di tr ti C es st)) = length st"
proof (induction es arbitrary: st)
  case Nil
  then show ?case by simp
next
  case (Cons e es)
  show ?case
  proof (cases "input_step flag split e st")
    case (Inl err)
    then show ?thesis by simp
  next
    case (Inr st1)
    note f1 = input_step_frame[OF assms(1) Inr]
    note f2 = loop_c_frame[OF assms(2-5), of flag e "[0..<C]" st1]
    obtain r st2 where l: "loop_c flag dr di tr ti e [0..<C] st1 = (r, st2)" by (cases "loop_c flag dr di tr ti e [0..<C] st1")
    show ?thesis
    proof (cases r)
      case None
      with Inr l f1 f2 Cons.IH[of st2] show ?thesis by simp
    next
      case (Some err)
      with Inr l f1 f2 show ?thesis by simp
    qed
  qed
qed

lemma loop_e_frame_rel:
  assumes "loop_e flag split dr di tr ti C es st = (r, st')"
    and "n \<le> base split" "n \<le> base dr" "n \<le> base di" "n \<le> tr" "n \<le> ti"
  shows "take n st' = take n st"
  using loop_e_frame[OF assms(2-6), of flag C es st] assms(1) by simp

lemma reformatting_frame:
  "take (length st)
     (snd (reformattingKspaceForSpark st inputKspace kspaceOriginal acsregionX acsregionY acsx acsy
             normalizationflag)) = st"
proof (cases "acs_bounds acsregionX acsregionY acsx acsy")
  case (Inl err)
  then show ?thesis by (simp add: reformattingKspaceForSpark_def Let_def)
next
  case (Inr b)
  obtain x0 x1 y0 y1 where b: "b = (x0, x1, y0, y1)" by (cases b) auto
  note bounds = Inr[unfolded b]
  show ?thesis
  proof (cases "np_subtract st (Window kspaceOriginal x0 x1 y0 y1) (Window inputKspace x0 x1 y0 y1)")
    case (Inl err)
    then show ?thesis using bounds by (simp add: reformattingKspaceForSpark_def Let_def)
  next
    case (Inr r)
    let ?n = "length st"
    obtain kd st1 where r: "r = (kd, st1)" by (cases r)
    have kd: "kd = AllOf ?n" and st1: "take ?n st1 = st" "length st1 = Suc ?n"
      using Inr r by (auto simp: np_subtract_def alloc_def Let_def split: if_splits)
    obtain kg st2 where c2: "np_copy st1 (AllOf inputKspace) = (kg, st2)"
      by (cases "np_copy st1 (AllOf inputKspace)")
    then have kg: "kg = AllOf (Suc ?n)" and st2: "take ?n st2 = st" "length st2 = ?n + 2"
      using st1 by (auto simp: np_copy_def alloc_def)
    obtain split st3 where c3: "np_concatenate1 st2 (np_real kg) (np_imag kg) = (split, st3)"
      by (cases "np_concatenate1 st2 (np_real kg) (np_imag kg)")
    then have split: "split = AllOf (?n + 2)" and st3: "take ?n st3 = st" "length st3 = ?n + 3"
      using st2 by (auto simp: np_concatenate1_def alloc_def)
    let ?E = "length (cbuf (st ! inputKspace))"
    let ?C = "case cbuf (st ! inputKspace) of [] \<Rightarrow> 0 | x0 # _ \<Rightarrow> length x0"
    obtain tr st4 where c4: "np_zeros2 st3 ?E ?C = (tr, st4)" by (cases "np_zeros2 st3 ?E ?C")
    then have tr: "tr = ?n + 3" and st4: "take ?n st4 = st" "length st4 = ?n + 4"
      using st3 by (auto simp: np_zeros2_def alloc_def)
    obtain ti st5 where c5: "np_zeros2 st4 ?E ?C = (ti, st5)" by (cases "np_zeros2 st4 ?E ?C")
    then have ti: "ti = ?n + 4" and st5: "take ?n st5 = st"
      using st4 by (auto simp: np_zeros2_def alloc_def)
    let ?L = "loop_e normalizationflag split (np_real kd) (np_imag kd) tr ti ?C [0..<?E] st5"
    have "take ?n (snd ?L) = take ?n st5"
      using loop_e_frame[of ?n split "np_real kd" "np_imag kd" tr ti]
      by (simp add: split kd tr ti np_real_def np_imag_def)
    moreover have "snd (reformattingKspaceForSpark st inputKspace kspaceOriginal acsregionX
        acsregionY acsx acsy normalizationflag) = snd ?L"
      by (simp add: reformattingKspaceForSpark_def Let_def bounds Inr r c2 c3 c4 c5
          split: prod.splits option.splits)
    ultimately show ?thesis using st5 by simp
  qed
qed

text \<open>
  C10.  The call leaves the two k-space arguments as they were, whatever the other
  arguments and the normalization flag are, whether it returns or raises, and also when
  both arguments are one array: every in-place operation goes to a buffer the function
  allocated itself (the difference array, the split copy of the input, the two tables).
\<close>

theorem reformatting_leaves_arguments:
  assumes "inputKspace < length st" and "kspaceOriginal < length st"
  shows "snd (reformattingKspaceForSpark st inputKspace kspaceOriginal acsregionX acsregionY acsx
                acsy normalizationflag) ! inputKspace = st ! inputKspace
       \<and> snd (reformattingKspaceForSpark st inputKspace kspaceOriginal acsregionX acsregionY acsx
                acsy normalizationflag) ! kspaceOriginal = st ! kspaceOriginal"
  using assms
    nth_take[of inputKspace "length st" "snd (reformattingKspaceForSpark st inputKspace kspaceOriginal acsregionX acsregionY acsx acsy normalizationflag)"]
    nth_take[of kspaceOriginal "length st" "snd (reformattingKspaceForSpark st inputKspace kspaceOriginal acsregionX acsregionY acsx acsy normalizationflag)"]
  by (simp add: reformatting_frame)

theorem reformatting_leaves_arguments_witness:
  "(0::nat) < length [CBuf [[[[(Fin 1, Fin 2)]]]], CBuf [[[[(Fin 1, Fin 5)]]]]]
   \<and> (1::nat) < length [CBuf [[[[(Fin 1, Fin 2)]]]], CBuf [[[[(Fin 1, Fin 5)]]]]]
   \<and> snd (reformattingKspaceForSpark [CBuf [[[[(Fin 1, Fin 2)]]]], CBuf [[[[(Fin 1, Fin 5)]]]]]
            0 1 [0] [0] 1 1 True) ! 0
       = CBuf [[[[(Fin 1, Fin 2)]]]]
   \<and> snd (reformattingKspaceForSpark [CBuf [[[[(Fin 1, Fin 2)]]]], CBuf [[[[(Fin 1, Fin 5)]]]]]
            0 1 [0] [0] 1 1 True) ! 1
       = CBuf [[[[(Fin 1, Fin 5)]]]]"
  using reformatting_leaves_arguments[of 0 "[CBuf [[[[(Fin 1, Fin 2)]]]], CBuf [[[[(Fin 1, Fin 5)]]]]]"
      1 "[0]" "[0]" 1 1 True]
  by simp

subsection \<open>\<^verbatim>\<open>reformattingKspaceForSpark\<close>: scale factors\<close>

lemma rect4_nth:
  "rect4 E C X Y a \<Longrightarrow> e < E \<Longrightarrow> c < C \<Longrightarrow>
     length (a ! e) = C \<and> length (a ! e ! c) = X \<and> list_all (\<lambda>r. length r = Y) (a ! e ! c)"
  by (simp add: rect4_def rect3_def rect2_def list_all_length)

lemma list_all_update:
  assumes "list_all P xs" and "i < length xs \<Longrightarrow> P y"
  shows "list_all P (xs[i := y])"
proof (cases "i < length xs")
  case True
  then show ?thesis
    using assms set_update_subset_insert[of xs i y] by (auto simp: list_all_iff)
next
  case False
  then show ?thesis using assms(1) by (simp add: list_update_beyond)
qed

lemma rect2_map_map: "rect2 X Y b \<Longrightarrow> rect2 X Y (map (map g) b)"
  by (simp add: rect2_def list_all_length)

lemma rect3_map3: "rect3 C X Y b \<Longrightarrow> rect3 C X Y (map (map (map g)) b)"
  by (simp add: rect3_def rect2_def list_all_length)

lemma rect3_channel_update:
  assumes "rect3 C X Y b"
  shows "rect3 C X Y (b[c := map (map g) (b ! c)])"
proof -
  have "list_all (rect2 X Y) (b[c := map (map g) (b ! c)])"
    using assms by (intro list_all_update) (simp_all add: rect3_def list_all_length rect2_map_map)
  then show ?thesis using assms by (simp add: rect3_def)
qed

lemma rect4_block_update:
  assumes "rect4 E C X Y a"
  shows "rect4 E C X Y (a[e := (a ! e)[c := map (map g) (a ! e ! c)]])"
proof -
  have "list_all (rect3 C X Y) (a[e := (a ! e)[c := map (map g) (a ! e ! c)]])"
    using assms
    by (intro list_all_update) (simp_all add: rect4_def list_all_length rect3_channel_update)
  then show ?thesis using assms by (simp add: rect4_def)
qed

lemma rect4_contrast_update:
  assumes "rect4 E C X Y a"
  shows "rect4 E C X Y (a[e := map (map (map g)) (a ! e)])"
proof -
  have "list_all (rect3 C X Y) (a[e := map (map (map g)) (a ! e)])"
    using assms by (intro list_all_update) (simp_all add: rect4_def list_all_length rect3_map3)
  then show ?thesis using assms by (simp add: rect4_def)
qed

lemma rect2_entry_update:
  assumes "rect2 E C m"
  shows "rect2 E C (m[e := (m ! e)[c := v]])"
proof -
  have "list_all (\<lambda>r. length r = C) (m[e := (m ! e)[c := v]])"
    using assms by (intro list_all_update) (simp_all add: rect2_def list_all_length)
  then show ?thesis using assms by (simp add: rect2_def)
qed

lemma concat_nonempty:
  "0 < X \<Longrightarrow> 0 < Y \<Longrightarrow> length b = X \<Longrightarrow> list_all (\<lambda>r. length r = Y) b \<Longrightarrow> concat (map (map g) b) \<noteq> []"
  by (cases b) (auto simp: list_all_iff)

lemma scale_factor_Inr: "xs \<noteq> [] \<Longrightarrow> \<exists>v. scale_factor xs = Inr v"
  by (cases xs) (simp_all add: scale_factor_def np_amax_def bind_e_def)

lemma foldl_fmax_zero: "list_all (\<lambda>u. u = Fin 0) xs \<Longrightarrow> foldl fmax (Fin 0) (map fabs xs) = Fin 0"
  by (induction xs) simp_all

lemma scale_factor_zero:
  "xs \<noteq> [] \<Longrightarrow> list_all (\<lambda>u. u = Fin 0) xs \<Longrightarrow> scale_factor xs = Inr PosInf"
  by (cases xs) (simp_all add: scale_factor_def np_amax_def bind_e_def foldl_fmax_zero list_all_iff)

lemma nested_update_other:
  "(e', c') \<noteq> (e, c) \<Longrightarrow> (a[e := (a ! e)[c := v]]) ! e' ! c' = a ! e' ! c'"
proof (cases "e' = e")
  case False
  then show ?thesis by simp
next
  case True
  assume "(e', c') \<noteq> (e, c)"
  with True have c: "c' \<noteq> c" by simp
  show ?thesis
  proof (cases "e < length a")
    case True
    then show ?thesis using \<open>e' = e\<close> c by simp
  next
    case False
    then show ?thesis by (simp add: list_update_beyond)
  qed
qed

lemma nested_update_same:
  "e < length a \<Longrightarrow> c < length (a ! e) \<Longrightarrow> (a[e := (a ! e)[c := v]]) ! e ! c = v"
  by simp

lemma chan_step_ok:
  assumes inv: "spark_inv n E C ax ay X Y st" and pos: "0 < ax" "0 < ay"
    and e: "e < E" and c: "c < C"
  shows "\<exists>st'. chan_step True (RealOf n) (ImagOf n) (n + 3) (n + 4) e c st = Inr st'
           \<and> spark_inv n E C ax ay X Y st'
           \<and> scale_factor (concat (map (map fst) (cbuf (st ! n) ! e ! c)))
                 = Inr (rmat (st' ! (n + 3)) ! e ! c)
           \<and> scale_factor (concat (map (map snd) (cbuf (st ! n) ! e ! c)))
                 = Inr (rmat (st' ! (n + 4)) ! e ! c)
           \<and> (\<forall>e' c'. (e', c') \<noteq> (e, c) \<longrightarrow>
                  cbuf (st' ! n) ! e' ! c' = cbuf (st ! n) ! e' ! c'
                \<and> rmat (st' ! (n + 3)) ! e' ! c' = rmat (st ! (n + 3)) ! e' ! c'
                \<and> rmat (st' ! (n + 4)) ! e' ! c' = rmat (st ! (n + 4)) ! e' ! c')"
proof -
  define D where "D = cbuf (st ! n)"
  define Tr where "Tr = rmat (st ! (n + 3))"
  define Ti where "Ti = rmat (st ! (n + 4))"
  have len: "length st = n + 5" and D: "rect4 E C ax ay D"
    and S: "rect4 E (2 * C) X Y (rbuf (st ! (n + 2)))"
    and Tr: "rect2 E C Tr" and Ti: "rect2 E C Ti"
    using inv by (simp_all add: spark_inv_def D_def Tr_def Ti_def)
  note blk = rect4_nth[OF D e c]
  have lenD: "length D = E" using D by (simp add: rect4_def)
  have ne: "concat (map (map g) (D ! e ! c)) \<noteq> []" for g :: "npcomplex \<Rightarrow> npfloat"
    using concat_nonempty[OF pos, of "D ! e ! c" g] blk by simp
  obtain sr where sr: "scale_factor (concat (map (map fst) (D ! e ! c))) = Inr sr"
    using scale_factor_Inr[OF ne] by blast
  obtain si where si: "scale_factor (concat (map (map snd) (D ! e ! c))) = Inr si"
    using scale_factor_Inr[OF ne] by blast
  have ldr: "map4 fst (cbuf (st ! n)) ! e ! c = map (map fst) (D ! e ! c)"
    and ldi: "map4 snd (cbuf (st ! n)) ! e ! c = map (map snd) (D ! e ! c)"
    using lenD blk e c by (simp_all add: map4_def D_def[symmetric])
  define Tr' where "Tr' = Tr[e := (Tr ! e)[c := sr]]"
  define Ti' where "Ti' = Ti[e := (Ti ! e)[c := si]]"
  define D1 where "D1 = D[e := (D ! e)[c := map (map (\<lambda>z. (fmul (fst z) sr, snd z))) (D ! e ! c)]]"
  define D2 where "D2 = D1[e := (D1 ! e)[c := map (map (\<lambda>z. (fst z, fmul (snd z) si))) (D1 ! e ! c)]]"
  define st' where "st' = st[n + 3 := RMat Tr', n + 4 := RMat Ti', n := CBuf D1, n := CBuf D2]"
  have s1: "set_entry st (n + 3) e c sr = st[n + 3 := RMat Tr']"
    by (simp add: set_entry_def Tr'_def Tr_def Let_def)
  have s2: "set_entry (st[n + 3 := RMat Tr']) (n + 4) e c si = st[n + 3 := RMat Tr', n + 4 := RMat Ti']"
    by (simp add: set_entry_def Ti'_def Ti_def Let_def)
  have s3: "imul_ec (st[n + 3 := RMat Tr', n + 4 := RMat Ti']) (RealOf n) e c sr
              = st[n + 3 := RMat Tr', n + 4 := RMat Ti', n := CBuf D1]"
    using len by (simp add: D1_def D_def Let_def)
  have s4: "imul_ec (st[n + 3 := RMat Tr', n + 4 := RMat Ti', n := CBuf D1]) (ImagOf n) e c si = st'"
    using len by (simp add: D2_def st'_def cbuf_def Let_def)
  have run: "chan_step True (RealOf n) (ImagOf n) (n + 3) (n + 4) e c st = Inr st'"
    unfolding chan_step_def by (simp add: ldr ldi sr si bind_e_def s1 s2 s3 s4 del: imul_ec.simps)
  have comp: "length st' = n + 5" "cbuf (st' ! n) = D2" "rbuf (st' ! (n + 2)) = rbuf (st ! (n + 2))"
    "rmat (st' ! (n + 3)) = Tr'" "rmat (st' ! (n + 4)) = Ti'"
    using len by (simp_all add: st'_def cbuf_def rmat_def)
  have D1r: "rect4 E C ax ay D1" unfolding D1_def by (rule rect4_block_update[OF D])
  have D2r: "rect4 E C ax ay D2" unfolding D2_def by (rule rect4_block_update[OF D1r])
  have inv': "spark_inv n E C ax ay X Y st'"
    unfolding spark_inv_def comp
    using D2r S rect2_entry_update[OF Tr] rect2_entry_update[OF Ti]
    by (simp add: Tr'_def Ti'_def)
  have lenT: "length Tr = E" "length (Tr ! e) = C" "length Ti = E" "length (Ti ! e) = C"
    using Tr Ti e by (simp_all add: rect2_def list_all_length)
  have same: "Tr' ! e ! c = sr" "Ti' ! e ! c = si"
    using lenT e c by (simp_all add: Tr'_def Ti'_def)
  have other: "D2 ! e' ! c' = D ! e' ! c' \<and> Tr' ! e' ! c' = Tr ! e' ! c' \<and> Ti' ! e' ! c' = Ti ! e' ! c'"
    if "(e', c') \<noteq> (e, c)" for e' c'
    unfolding D2_def D1_def Tr'_def Ti'_def
    using that by (simp add: nested_update_other del: list_update_overwrite)
  show ?thesis
    using run inv' sr si same other
    by (intro exI[of _ st'])
      (simp add: comp D_def[symmetric] Tr_def[symmetric] Ti_def[symmetric])
qed

lemma chan_step_target:
  assumes inv: "spark_inv n E C ax ay X Y st" and pos: "0 < ax" "0 < ay"
    and e: "e < E" and c: "c < C"
    and tgt: "target_inv n e0 c0 B0 dn st" and once: "dn \<longrightarrow> (e, c) \<noteq> (e0, c0)"
  shows "\<exists>st'. chan_step True (RealOf n) (ImagOf n) (n + 3) (n + 4) e c st = Inr st'
           \<and> spark_inv n E C ax ay X Y st'
           \<and> target_inv n e0 c0 B0 (dn \<or> (e, c) = (e0, c0)) st'"
proof -
  from chan_step_ok[OF inv pos e c] obtain st' where
    run: "chan_step True (RealOf n) (ImagOf n) (n + 3) (n + 4) e c st = Inr st'"
    and inv': "spark_inv n E C ax ay X Y st'"
    and sr: "scale_factor (concat (map (map fst) (cbuf (st ! n) ! e ! c)))
                 = Inr (rmat (st' ! (n + 3)) ! e ! c)"
    and si: "scale_factor (concat (map (map snd) (cbuf (st ! n) ! e ! c)))
                 = Inr (rmat (st' ! (n + 4)) ! e ! c)"
    and other: "\<And>e' c'. (e', c') \<noteq> (e, c) \<Longrightarrow>
                  cbuf (st' ! n) ! e' ! c' = cbuf (st ! n) ! e' ! c'
                \<and> rmat (st' ! (n + 3)) ! e' ! c' = rmat (st ! (n + 3)) ! e' ! c'
                \<and> rmat (st' ! (n + 4)) ! e' ! c' = rmat (st ! (n + 4)) ! e' ! c'"
    by blast
  have "target_inv n e0 c0 B0 (dn \<or> (e, c) = (e0, c0)) st'"
  proof (cases "(e, c) = (e0, c0)")
    case True
    with once have "\<not> dn" by simp
    with tgt have "cbuf (st ! n) ! e0 ! c0 = B0" by (simp add: target_inv_def)
    with True sr si show ?thesis by (simp add: target_inv_def)
  next
    case False
    then have "(e0, c0) \<noteq> (e, c)" by auto
    from other[OF this] tgt False show ?thesis by (cases dn) (auto simp: target_inv_def)
  qed
  with run inv' show ?thesis by blast
qed

lemma loop_c_ok:
  assumes pos: "0 < ax" "0 < ay" and e: "e < E"
  shows "spark_inv n E C ax ay X Y st \<Longrightarrow> distinct cs \<Longrightarrow> list_all (\<lambda>c. c < C) cs \<Longrightarrow>
         target_inv n e0 c0 B0 dn st \<Longrightarrow> (dn \<longrightarrow> \<not> (e = e0 \<and> c0 \<in> set cs)) \<Longrightarrow>
         \<exists>st'. loop_c True (RealOf n) (ImagOf n) (n + 3) (n + 4) e cs st = (None, st')
           \<and> spark_inv n E C ax ay X Y st'
           \<and> target_inv n e0 c0 B0 (dn \<or> (e = e0 \<and> c0 \<in> set cs)) st'"
proof (induction cs arbitrary: st dn)
  case Nil
  then show ?case by simp
next
  case (Cons c cs)
  have c: "c < C" using Cons.prems(3) by simp
  have once: "dn \<longrightarrow> (e, c) \<noteq> (e0, c0)" using Cons.prems(5) by auto
  from chan_step_target[OF Cons.prems(1) pos e c Cons.prems(4) once] obtain st1 where
    run: "chan_step True (RealOf n) (ImagOf n) (n + 3) (n + 4) e c st = Inr st1"
    and inv1: "spark_inv n E C ax ay X Y st1"
    and tgt1: "target_inv n e0 c0 B0 (dn \<or> (e, c) = (e0, c0)) st1"
    by blast
  have d: "distinct cs" and l: "list_all (\<lambda>c. c < C) cs" using Cons.prems(2,3) by simp_all
  have once1: "(dn \<or> (e, c) = (e0, c0)) \<longrightarrow> \<not> (e = e0 \<and> c0 \<in> set cs)"
    using Cons.prems(2,5) by auto
  from Cons.IH[OF inv1 d l tgt1 once1] obtain st' where
    "loop_c True (RealOf n) (ImagOf n) (n + 3) (n + 4) e cs st1 = (None, st')"
    "spark_inv n E C ax ay X Y st'"
    "target_inv n e0 c0 B0 ((dn \<or> (e, c) = (e0, c0)) \<or> (e = e0 \<and> c0 \<in> set cs)) st'"
    by blast
  moreover have "((dn \<or> (e, c) = (e0, c0)) \<or> (e = e0 \<and> c0 \<in> set cs))
      = (dn \<or> (e = e0 \<and> c0 \<in> set (c # cs)))" by auto
  ultimately show ?case using run by simp
qed

lemma concat_concat_nonempty:
  assumes "rect3 C X Y b" "0 < C" "0 < X" "0 < Y"
  shows "concat (concat b) \<noteq> []"
proof -
  obtain b0 bs where b: "b = b0 # bs" using assms(1,2) by (cases b) (auto simp: rect3_def)
  then have "rect2 X Y b0" using assms(1) by (simp add: rect3_def)
  then obtain r rs where b0: "b0 = r # rs" "length r = Y"
    using assms(3) by (cases b0) (auto simp: rect2_def)
  then show ?thesis using b assms(4) by auto
qed

lemma input_step_ok:
  assumes inv: "spark_inv n E C ax ay X Y st" and pos: "0 < C" "0 < X" "0 < Y" and e: "e < E"
  shows "\<exists>st'. input_step True (AllOf (n + 2)) e st = Inr st'
           \<and> spark_inv n E C ax ay X Y st'
           \<and> st' ! n = st ! n \<and> st' ! (n + 3) = st ! (n + 3) \<and> st' ! (n + 4) = st ! (n + 4)"
proof -
  define S where "S = rbuf (st ! (n + 2))"
  have len: "length st = n + 5" and S: "rect4 E (2 * C) X Y S"
    using inv by (simp_all add: spark_inv_def S_def)
  have "rect3 (2 * C) X Y (S ! e)" using S e by (simp add: rect4_def list_all_length)
  from concat_concat_nonempty[OF this] pos have "concat (concat (S ! e)) \<noteq> []" by simp
  from scale_factor_Inr[OF this] obtain s where s: "scale_factor (concat (concat (S ! e))) = Inr s"
    by blast
  define st' where "st' = st[n + 2 := RBuf (S[e := map (map (map (\<lambda>u. fmul u s))) (S ! e)])]"
  have run: "input_step True (AllOf (n + 2)) e st = Inr st'"
    using s unfolding S_def st'_def by (simp add: input_step_def bind_e_def Let_def)
  have "spark_inv n E C ax ay X Y st'"
    using inv len rect4_contrast_update[OF S, of e "\<lambda>u. fmul u s"]
    unfolding S_def st'_def by (simp add: spark_inv_def rbuf_def)
  moreover have "st' ! n = st ! n" "st' ! (n + 3) = st ! (n + 3)" "st' ! (n + 4) = st ! (n + 4)"
    by (simp_all add: st'_def)
  ultimately show ?thesis using run by blast
qed

lemma loop_e_ok:
  assumes pos: "0 < ax" "0 < ay" "0 < C" "0 < X" "0 < Y"
  shows "spark_inv n E C ax ay X Y st \<Longrightarrow> distinct es \<Longrightarrow> list_all (\<lambda>e. e < E) es \<Longrightarrow>
         target_inv n e0 c0 B0 dn st \<Longrightarrow> c0 < C \<Longrightarrow> (dn \<longrightarrow> e0 \<notin> set es) \<Longrightarrow>
         \<exists>st'. loop_e True (AllOf (n + 2)) (RealOf n) (ImagOf n) (n + 3) (n + 4) C es st = (None, st')
           \<and> spark_inv n E C ax ay X Y st'
           \<and> target_inv n e0 c0 B0 (dn \<or> e0 \<in> set es) st'"
proof (induction es arbitrary: st dn)
  case Nil
  then show ?case by simp
next
  case (Cons e es)
  have e: "e < E" using Cons.prems(3) by simp
  from input_step_ok[OF Cons.prems(1) pos(3,4,5) e] obtain st1 where
    run1: "input_step True (AllOf (n + 2)) e st = Inr st1"
    and inv1: "spark_inv n E C ax ay X Y st1"
    and same: "st1 ! n = st ! n" "st1 ! (n + 3) = st ! (n + 3)" "st1 ! (n + 4) = st ! (n + 4)"
    by blast
  have tgt1: "target_inv n e0 c0 B0 dn st1"
    using Cons.prems(4) same by (simp add: target_inv_def)
  have once: "dn \<longrightarrow> \<not> (e = e0 \<and> c0 \<in> set [0..<C])" using Cons.prems(6) by auto
  have "distinct [0..<C]" "list_all (\<lambda>c. c < C) [0..<C]" by (simp_all add: list_all_iff)
  from loop_c_ok[OF pos(1,2) e inv1 this tgt1 once] obtain st2 where
    run2: "loop_c True (RealOf n) (ImagOf n) (n + 3) (n + 4) e [0..<C] st1 = (None, st2)"
    and inv2: "spark_inv n E C ax ay X Y st2"
    and tgt2: "target_inv n e0 c0 B0 (dn \<or> (e = e0 \<and> c0 \<in> set [0..<C])) st2"
    by blast
  have tgt2': "target_inv n e0 c0 B0 (dn \<or> e = e0) st2"
    using tgt2 Cons.prems(5) by simp
  have d: "distinct es" and l: "list_all (\<lambda>e. e < E) es" using Cons.prems(2,3) by simp_all
  have once2: "(dn \<or> e = e0) \<longrightarrow> e0 \<notin> set es" using Cons.prems(2,6) by auto
  from Cons.IH[OF inv2 d l tgt2' Cons.prems(5) once2] obtain st' where
    "loop_e True (AllOf (n + 2)) (RealOf n) (ImagOf n) (n + 3) (n + 4) C es st2 = (None, st')"
    "spark_inv n E C ax ay X Y st'"
    "target_inv n e0 c0 B0 ((dn \<or> e = e0) \<or> e0 \<in> set es) st'"
    by blast
  moreover have "((dn \<or> e = e0) \<or> e0 \<in> set es) = (dn \<or> e0 \<in> set (e # es))" by auto
  ultimately show ?case using run1 run2 by simp
qed

lemma length_py_slice:
  "0 \<le> lo \<Longrightarrow> lo \<le> hi \<Longrightarrow> hi \<le> int (length xs) \<Longrightarrow> length (py_slice lo hi xs) = nat (hi - lo)"
  by (simp add: py_slice_def slice_bound_def Let_def min_def) linarith

lemma rect4_window:
  assumes "rect4 E C X Y a" "0 \<le> x0" "x0 \<le> x1" "x1 \<le> int X" "0 \<le> y0" "y0 \<le> y1" "y1 \<le> int Y"
  shows "rect4 E C (nat (x1 - x0)) (nat (y1 - y0))
           (map (map (\<lambda>p. map (py_slice y0 y1) (py_slice x0 x1 p))) a)"
proof -
  have row: "length (py_slice y0 y1 r) = nat (y1 - y0)" if "length r = Y" for r :: "'a list"
    using length_py_slice[OF assms(5,6), of r] assms(7) that by simp
  have pl: "rect2 (nat (x1 - x0)) (nat (y1 - y0)) (map (py_slice y0 y1) (py_slice x0 x1 p))"
    if "rect2 X Y p" for p :: "'a list list"
  proof -
    have "length (py_slice x0 x1 p) = nat (x1 - x0)"
      using length_py_slice[OF assms(2,3), of p] assms(4) that by (simp add: rect2_def)
    moreover have "set (py_slice x0 x1 p) \<subseteq> set p"
      by (auto simp: py_slice_def Let_def dest: in_set_takeD in_set_dropD)
    ultimately show ?thesis
      using that row by (auto simp: rect2_def list_all_iff)
  qed
  show ?thesis
    using assms(1) pl by (auto simp: rect4_def rect3_def list_all_iff)
qed

lemma rect4_shape:
  "rect4 E C X Y a \<Longrightarrow> map (map (map length)) a = replicate E (replicate C (replicate X Y))"
proof -
  assume a: "rect4 E C X Y a"
  have r2: "map length p = replicate X Y" if "rect2 X Y p" for p :: "'a list list"
    using that by (auto simp: rect2_def list_all_iff intro: replicate_eqI)
  have r3: "map (map length) b = replicate C (replicate X Y)" if "rect3 C X Y b" for b :: "'a list list list"
  proof -
    have "map (map length) b = replicate (length (map (map length) b)) (replicate X Y)"
      using that by (intro replicate_eqI) (auto simp: rect3_def list_all_iff r2)
    then show ?thesis using that by (simp add: rect3_def)
  qed
  have "map (map (map length)) a = replicate (length (map (map (map length)) a)) (replicate C (replicate X Y))"
    using a by (intro replicate_eqI) (auto simp: rect4_def list_all_iff r3)
  then show ?thesis using a by (simp add: rect4_def)
qed

lemma rect4_zip4:
  assumes "rect4 E C X Y a" "rect4 E C X Y b"
  shows "rect4 E C X Y (zip4 f a b)"
  using assms
  by (simp add: zip4_def rect4_def rect3_def rect2_def list_all_length)

lemma rect4_split:
  assumes "rect4 E C X Y x"
  shows "rect4 E (2 * C) X Y (map2 (@) (map4 f x) (map4 g x))"
  using assms
  by (auto simp: map4_def rect4_def rect3_def rect2_def list_all_length nth_append)

lemma rect2_zeros: "rect2 E C (replicate E (replicate C v))"
  by (simp add: rect2_def list_all_length)

lemma zip4_nth:
  assumes "rect4 E C X Y a" "rect4 E C X Y b" "e < E" "c < C"
  shows "zip4 f a b ! e ! c = map2 (map2 f) (a ! e ! c) (b ! e ! c)"
  using assms by (simp add: zip4_def rect4_def rect3_def list_all_length)

lemma reformatting_scale_factors:
  assumes inp: "inputKspace < length st" "rect4 E C X Y (cbuf (st ! inputKspace))"
    and orig: "kspaceOriginal < length st" "rect4 E C X Y (cbuf (st ! kspaceOriginal))"
    and bounds: "acs_bounds acsregionX acsregionY acsx acsy = Inr (x0, x1, y0, y1)"
    and win: "0 \<le> x0" "x0 < x1" "x1 \<le> int X" "0 \<le> y0" "y0 < y1" "y1 \<le> int Y"
    and ec: "e < E" "c < C"
  shows "\<exists>d st'. reformattingKspaceForSpark st inputKspace kspaceOriginal acsregionX acsregionY
                   acsx acsy True = (Inr d, st')
           \<and> scale_factor (concat (map (map fst)
                 (zip4 csub (load_complex st (Window kspaceOriginal x0 x1 y0 y1))
                            (load_complex st (Window inputKspace x0 x1 y0 y1)) ! e ! c)))
               = Inr (chan_scale_factors_real d ! e ! c)
           \<and> scale_factor (concat (map (map snd)
                 (zip4 csub (load_complex st (Window kspaceOriginal x0 x1 y0 y1))
                            (load_complex st (Window inputKspace x0 x1 y0 y1)) ! e ! c)))
               = Inr (chan_scale_factors_imag d ! e ! c)"
proof -
  let ?n = "length st"
  let ?ax = "nat (x1 - x0)" and ?ay = "nat (y1 - y0)"
  define xs where "xs = cbuf (st ! inputKspace)"
  define Wy where "Wy = load_complex st (Window kspaceOriginal x0 x1 y0 y1)"
  define Wx where "Wx = load_complex st (Window inputKspace x0 x1 y0 y1)"
  define D0 where "D0 = zip4 csub Wy Wx"
  define S0 where "S0 = map2 (@) (map4 fst xs) (map4 snd xs)"
  define Z where "Z = replicate E (replicate C (Fin 0))"
  have pos: "0 < ?ax" "0 < ?ay" "0 < C" "0 < X" "0 < Y" using win ec by simp_all
  have Wy: "rect4 E C ?ax ?ay Wy" and Wx: "rect4 E C ?ax ?ay Wx"
    unfolding Wy_def Wx_def using rect4_window[OF orig(2)] rect4_window[OF inp(2)] win by simp_all
  have D0: "rect4 E C ?ax ?ay D0" unfolding D0_def by (rule rect4_zip4[OF Wy Wx])
  have S0: "rect4 E (2 * C) X Y S0" unfolding S0_def xs_def by (rule rect4_split[OF inp(2)])
  have EC: "length (cbuf (st ! inputKspace)) = E"
    "(case cbuf (st ! inputKspace) of [] \<Rightarrow> 0 | x0 # _ \<Rightarrow> length x0) = C"
  proof -
    show "length (cbuf (st ! inputKspace)) = E" using inp(2) by (simp add: rect4_def)
    then obtain a0 as where "cbuf (st ! inputKspace) = a0 # as" using ec(1)
      by (cases "cbuf (st ! inputKspace)") auto
    moreover from this have "length a0 = C"
      using inp(2) by (simp add: rect4_def rect3_def)
    ultimately show "(case cbuf (st ! inputKspace) of [] \<Rightarrow> 0 | x0 # _ \<Rightarrow> length x0) = C"
      by simp
  qed
  have sub: "np_subtract st (Window kspaceOriginal x0 x1 y0 y1) (Window inputKspace x0 x1 y0 y1)
      = Inr (AllOf ?n, st @ [CBuf D0])"
    using rect4_shape[OF Wy] rect4_shape[OF Wx]
    unfolding np_subtract_def Let_def Wy_def[symmetric] Wx_def[symmetric] D0_def
    by (simp add: alloc_def)
  have cp: "np_copy (st @ [CBuf D0]) (AllOf inputKspace) = (AllOf (Suc ?n), st @ [CBuf D0, CBuf xs])"
    using inp(1) by (simp add: np_copy_def alloc_def nth_append xs_def)
  have cc: "np_concatenate1 (st @ [CBuf D0, CBuf xs]) (RealOf (Suc ?n)) (ImagOf (Suc ?n))
      = (AllOf (?n + 2), st @ [CBuf D0, CBuf xs, RBuf S0])"
    by (simp add: np_concatenate1_def alloc_def nth_append S0_def cbuf_def)
  have z1: "np_zeros2 (st @ [CBuf D0, CBuf xs, RBuf S0]) E C = (?n + 3, st @ [CBuf D0, CBuf xs, RBuf S0, RMat Z])"
    by (simp add: np_zeros2_def alloc_def Z_def)
  have z2: "np_zeros2 (st @ [CBuf D0, CBuf xs, RBuf S0, RMat Z]) E C
      = (?n + 4, st @ [CBuf D0, CBuf xs, RBuf S0, RMat Z, RMat Z])"
    by (simp add: np_zeros2_def alloc_def Z_def)
  let ?st5 = "st @ [CBuf D0, CBuf xs, RBuf S0, RMat Z, RMat Z]"
  have nth5: "?st5 ! ?n = CBuf D0" "?st5 ! (?n + 2) = RBuf S0" "?st5 ! (?n + 3) = RMat Z"
    "?st5 ! (?n + 4) = RMat Z"
    by (simp_all add: nth_append)
  have inv5: "spark_inv ?n E C ?ax ?ay X Y ?st5"
    unfolding spark_inv_def nth5
    using D0 S0 rect2_zeros[of E C "Fin 0"] by (simp add: cbuf_def rbuf_def rmat_def Z_def)
  have tgt5: "target_inv ?n e c (D0 ! e ! c) False ?st5"
    unfolding target_inv_def nth5 by (simp add: cbuf_def)
  have "distinct [0..<E]" "list_all (\<lambda>e. e < E) [0..<E]" by (simp_all add: list_all_iff)
  from loop_e_ok[OF pos inv5 this tgt5 ec(2)] obtain st6 where
    run: "loop_e True (AllOf (?n + 2)) (RealOf ?n) (ImagOf ?n) (?n + 3) (?n + 4) C [0..<E] ?st5
            = (None, st6)"
    and tgt6: "target_inv ?n e c (D0 ! e ! c) (False \<or> e \<in> set [0..<E]) st6"
    by auto
  have tgt: "scale_factor (concat (map (map fst) (D0 ! e ! c))) = Inr (rmat (st6 ! (?n + 3)) ! e ! c)"
    "scale_factor (concat (map (map snd) (D0 ! e ! c))) = Inr (rmat (st6 ! (?n + 4)) ! e ! c)"
    using tgt6 ec(1) by (simp_all add: target_inv_def)
  have res: "reformattingKspaceForSpark st inputKspace kspaceOriginal acsregionX acsregionY
                   acsx acsy True
      = (Inr \<lparr>kspace_grappa_split = load_real st6 (AllOf (?n + 2)),
               acs_difference_real = expand_dims22 (load_real st6 (RealOf ?n)),
               acs_difference_imag = expand_dims22 (load_real st6 (ImagOf ?n)),
               chan_scale_factors_real = rmat (st6 ! (?n + 3)),
               chan_scale_factors_imag = rmat (st6 ! (?n + 4))\<rparr>, st6)"
    by (simp only: reformattingKspaceForSpark_def Let_def EC bounds sum.case prod.case sub
        np_real_def np_imag_def view.case cp cc z1 z2 run option.case)
  show ?thesis
    unfolding res Wy_def[symmetric] Wx_def[symmetric] D0_def[symmetric]
    using tgt by simp
qed

lemma scale_factor_of_zeros:
  assumes "scale_factor (concat (map (map g) B)) = Inr v"
    and "list_all (list_all (\<lambda>z. g z = Fin 0)) B"
  shows "v = PosInf"
proof -
  have "scale_factor [] = Inl ValueError"
    by (simp add: scale_factor_def np_amax_def bind_e_def)
  with assms(1) have ne: "concat (map (map g) B) \<noteq> []"
    by (metis sum.distinct(1))
  have "list_all (\<lambda>u. u = Fin 0) (concat (map (map g) B))"
    using assms(2) by (auto simp: list_all_iff)
  from scale_factor_zero[OF ne this] assms(1) show ?thesis by simp
qed

text \<open>
  C2 as stated fails: the function has no check for a zero maximum.  One contrast, one
  channel, a 1 by 1 k-space, reconstruction \<open>1 + 2i\<close> and measurement \<open>1 + 5i\<close>, so the
  real part of the ACS residual is identically zero: the call returns, with
  \<^verbatim>\<open>chan_scale_factors_real = [[inf]]\<close> (and the scaled real residual \<^verbatim>\<open>nan\<close>).
\<close>

theorem reformatting_zero_residual_counterexample:
  "reformattingKspaceForSpark
     [CBuf [[[[(Fin 1, Fin 2)]]]], CBuf [[[[(Fin 1, Fin 5)]]]]] 0 1 [0] [0] 1 1 True
   = (Inr \<lparr>kspace_grappa_split = [[[[Fin (1 / 2)]], [[Fin 1]]]],
            acs_difference_real = [[[[[[NaN]]]]]],
            acs_difference_imag = [[[[[[Fin 1]]]]]],
            chan_scale_factors_real = [[PosInf]],
            chan_scale_factors_imag = [[Fin (1 / 3)]]\<rparr>,
      [CBuf [[[[(Fin 1, Fin 2)]]]], CBuf [[[[(Fin 1, Fin 5)]]]],
       CBuf [[[[(NaN, Fin 1)]]]], CBuf [[[[(Fin 1, Fin 2)]]]],
       RBuf [[[[Fin (1 / 2)]], [[Fin 1]]]], RMat [[PosInf]], RMat [[Fin (1 / 3)]]])"
  by (simp add: reformattingKspaceForSpark_def acs_bounds_def bind_e_def py_index_def
      np_subtract_def np_copy_def np_concatenate1_def np_zeros2_def alloc_def np_real_def
      np_imag_def py_slice_def slice_bound_def zip4_def map4_def csub_def fsub_def cbuf_def
      rbuf_def rmat_def input_step_def chan_step_def scale_factor_def np_amax_def set_entry_def
      expand_dims22_def Let_def)

text \<open>
  C2, amended: with normalization enabled, on two k-space arrays of one shape and an ACS
  window that is not empty and lies inside them, \<^verbatim>\<open>reformattingKspaceForSpark\<close> signals
  no error; it returns, and for every contrast \<open>e\<close> and channel \<open>c\<close> whose ACS residual
  \<^verbatim>\<open>kspaceAcsCrop - kspaceAcsGrappa\<close> has an identically zero real (imaginary) part,
  \<^verbatim>\<open>chan_scale_factors_real[e,c]\<close> (\<^verbatim>\<open>chan_scale_factors_imag[e,c]\<close>) is \<^verbatim>\<open>+inf\<close>.
\<close>

theorem reformatting_zero_residual_returns_inf:
  assumes "inputKspace < length st" and "st ! inputKspace = CBuf x" and "rect4 E C X Y x"
    and "kspaceOriginal < length st" and "st ! kspaceOriginal = CBuf y" and "rect4 E C X Y y"
    and "acs_bounds acsregionX acsregionY acsx acsy = Inr (x0, x1, y0, y1)"
    and "0 \<le> x0" "x0 < x1" "x1 \<le> int X" "0 \<le> y0" "y0 < y1" "y1 \<le> int Y"
    and "e < E" "c < C"
  shows "\<exists>d st'. reformattingKspaceForSpark st inputKspace kspaceOriginal acsregionX acsregionY
                   acsx acsy True = (Inr d, st')
           \<and> (list_all (list_all (\<lambda>z. fst z = Fin 0))
                 (zip4 csub (load_complex st (Window kspaceOriginal x0 x1 y0 y1))
                            (load_complex st (Window inputKspace x0 x1 y0 y1)) ! e ! c)
                \<longrightarrow> chan_scale_factors_real d ! e ! c = PosInf)
           \<and> (list_all (list_all (\<lambda>z. snd z = Fin 0))
                 (zip4 csub (load_complex st (Window kspaceOriginal x0 x1 y0 y1))
                            (load_complex st (Window inputKspace x0 x1 y0 y1)) ! e ! c)
                \<longrightarrow> chan_scale_factors_imag d ! e ! c = PosInf)"
proof -
  have i: "rect4 E C X Y (cbuf (st ! inputKspace))" and k: "rect4 E C X Y (cbuf (st ! kspaceOriginal))"
    using assms(2,3,5,6) by (simp_all add: cbuf_def)
  from reformatting_scale_factors[OF assms(1) i assms(4) k assms(7-15)]
  obtain d st' where
    run: "reformattingKspaceForSpark st inputKspace kspaceOriginal acsregionX acsregionY
                   acsx acsy True = (Inr d, st')"
    and sr: "scale_factor (concat (map (map fst)
                 (zip4 csub (load_complex st (Window kspaceOriginal x0 x1 y0 y1))
                            (load_complex st (Window inputKspace x0 x1 y0 y1)) ! e ! c)))
               = Inr (chan_scale_factors_real d ! e ! c)"
    and si: "scale_factor (concat (map (map snd)
                 (zip4 csub (load_complex st (Window kspaceOriginal x0 x1 y0 y1))
                            (load_complex st (Window inputKspace x0 x1 y0 y1)) ! e ! c)))
               = Inr (chan_scale_factors_imag d ! e ! c)"
    by blast
  show ?thesis
    using run scale_factor_of_zeros[OF sr] scale_factor_of_zeros[OF si] by blast
qed

theorem reformatting_zero_residual_returns_inf_witness:
  "(0::nat) < length [CBuf [[[[(Fin 1, Fin 2), (Fin 4, Fin 0)], [(Fin 3, Fin 2), (Fin 8, Fin 0)]]]],
                      CBuf [[[[(Fin 1, Fin 5), (Fin 4, Fin 0)], [(Fin 3, Fin 2), (Fin 8, Fin 3)]]]]]
   \<and> rect4 1 1 2 2 [[[[(Fin 1, Fin 2), (Fin 4, Fin 0)], [(Fin 3, Fin 2), (Fin 8, Fin 0)]]]]
   \<and> rect4 1 1 2 2 [[[[(Fin 1, Fin 5), (Fin 4, Fin 0)], [(Fin 3, Fin 2), (Fin 8, Fin 3)]]]]
   \<and> acs_bounds [0, 1] [0, 1] 2 2 = Inr (0, 2, 0, 2)
   \<and> (\<exists>d st'. reformattingKspaceForSpark
          [CBuf [[[[(Fin 1, Fin 2), (Fin 4, Fin 0)], [(Fin 3, Fin 2), (Fin 8, Fin 0)]]]],
           CBuf [[[[(Fin 1, Fin 5), (Fin 4, Fin 0)], [(Fin 3, Fin 2), (Fin 8, Fin 3)]]]]]
          0 1 [0, 1] [0, 1] 2 2 True = (Inr d, st')
        \<and> chan_scale_factors_real d ! 0 ! 0 = PosInf)"
proof -
  let ?x = "[[[[(Fin 1, Fin 2), (Fin 4, Fin 0)], [(Fin 3, Fin 2), (Fin 8, Fin 0)]]]]"
  let ?y = "[[[[(Fin 1, Fin 5), (Fin 4, Fin 0)], [(Fin 3, Fin 2), (Fin 8, Fin 3)]]]]"
  let ?st = "[CBuf ?x, CBuf ?y]"
  have h1: "0 < length ?st" "?st ! 0 = CBuf ?x" "1 < length ?st" "?st ! 1 = CBuf ?y" by simp_all
  have h2: "rect4 1 1 2 2 ?x" "rect4 1 1 2 2 ?y" by (simp_all add: rect4_def rect3_def rect2_def)
  have h3: "acs_bounds [0, 1] [0, 1] 2 2 = Inr (0, 2, 0, 2)"
    by (simp add: acs_bounds_def bind_e_def py_index_def)
  have h4: "(0::int) \<le> 0" "(0::int) < 2" "(2::int) \<le> int 2" "(0::nat) < 1" by simp_all
  have z: "list_all (list_all (\<lambda>z. fst z = Fin 0))
             (zip4 csub (load_complex ?st (Window 1 0 2 0 2)) (load_complex ?st (Window 0 0 2 0 2)) ! 0 ! 0)"
    by (simp add: zip4_def csub_def fsub_def cbuf_def py_slice_def slice_bound_def)
  from reformatting_zero_residual_returns_inf[OF h1(1,2) h2(1) h1(3,4) h2(2) h3 h4(1,2,3) h4(1,2,3) h4(4) h4(4)] z
  have "\<exists>d st'. reformattingKspaceForSpark ?st 0 1 [0, 1] [0, 1] 2 2 True = (Inr d, st')
        \<and> chan_scale_factors_real d ! 0 ! 0 = PosInf"
    by blast
  with h1(1) h2 h3 show ?thesis by (intro conjI)
qed

end

